(* ===== verification/Prelude.thy ===== *)
theory Prelude
  imports Main "HOL-Library.Word" "HOL-Library.AList"
begin

text \<open>
  What every component shares: Go's machine integers and durations, Go's maps (nil or a
  list of entries in some iteration order), Go's \<open>select\<close>, panics, and the reachability
  of a step relation with its invariant rule (locale \<open>invariant_system\<close>).
\<close>

named_theorems model_defs \<open>definitions of operations, unfolded together\<close>
named_theorems select_branches \<open>which branches of a select are open\<close>

section \<open>Integers and durations\<close>

type_synonym byte = "8 word"
type_synonym bytes = "byte list"

text \<open>
  \<open>time.Duration\<close> is an int64 number of nanoseconds. It is an \<open>int\<close> here, and the
  wrap-around is written out (\<open>int64\<close>) wherever the code computes a duration.
\<close>

type_synonym duration = int

definition int64 :: "int \<Rightarrow> int" where
  "int64 x = (x + 2 ^ 63) mod 2 ^ 64 - 2 ^ 63"

definition in_int64 :: "int \<Rightarrow> bool" where
  "in_int64 x \<longleftrightarrow> - (2 ^ 63) \<le> x \<and> x < 2 ^ 63"

definition millisecond :: duration where "millisecond = 1000000"
definition second :: duration where "second = 1000000000"

lemma int64_id [simp]: "in_int64 x \<Longrightarrow> int64 x = x"
  by (simp add: int64_def in_int64_def)

lemma in_int64_int64 [simp]: "in_int64 (int64 x)"
  by (simp add: int64_def in_int64_def pos_mod_bound)

text \<open>Go divides integers towards zero.\<close>

definition go_div :: "int \<Rightarrow> int \<Rightarrow> int" where
  "go_div a b = sgn a * sgn b * (\<bar>a\<bar> div \<bar>b\<bar>)"

lemma go_div_nonneg: "0 \<le> a \<Longrightarrow> 0 < b \<Longrightarrow> go_div a b = a div b"
  by (cases "a = 0") (auto simp: go_div_def)

section \<open>Maps\<close>

text \<open>
  A Go map is nil (\<open>None\<close>) or a list of entries. The order of the list stands for the
  order of one \<open>range\<close> over the map, which Go leaves open: a theorem about all lists is a
  theorem about all iteration orders. Reading a nil map finds nothing; writing to one
  panics.
\<close>

type_synonym ('k, 'v) gomap = "('k \<times> 'v) list option"

definition gm_entries :: "('k, 'v) gomap \<Rightarrow> ('k \<times> 'v) list" where
  "gm_entries m = (case m of None \<Rightarrow> [] | Some es \<Rightarrow> es)"

definition gm_get :: "('k, 'v) gomap \<Rightarrow> 'k \<Rightarrow> 'v option" where
  "gm_get m k = map_of (gm_entries m) k"

definition gm_len :: "('k, 'v) gomap \<Rightarrow> nat" where
  "gm_len m = length (gm_entries m)"

definition gm_make :: "('k, 'v) gomap" where
  "gm_make = Some []"

datatype panic = NilMapWrite | NilChannel | NilFunc | UserPanic string

definition gm_set :: "'k \<Rightarrow> 'v \<Rightarrow> ('k, 'v) gomap \<Rightarrow> panic + ('k, 'v) gomap" where
  "gm_set k v m = (case m of None \<Rightarrow> Inl NilMapWrite | Some es \<Rightarrow> Inr (Some (AList.update k v es)))"

text \<open>A write to a map that is known not to be nil.\<close>

definition gm_put :: "'k \<Rightarrow> 'v \<Rightarrow> ('k, 'v) gomap \<Rightarrow> ('k, 'v) gomap" where
  "gm_put k v m = (case gm_set k v m of Inl _ \<Rightarrow> m | Inr m' \<Rightarrow> m')"

text \<open>\<open>maps.Copy(dst, src)\<close> for a non-nil \<open>dst\<close>.\<close>

definition gm_copy :: "('k, 'v) gomap \<Rightarrow> ('k, 'v) gomap \<Rightarrow> ('k, 'v) gomap" where
  "gm_copy dst src = Some (foldr (\<lambda>(k, v). AList.update k v) (gm_entries src) (gm_entries dst))"

lemma gm_entries_simps [simp]:
  "gm_entries None = []"
  "gm_entries (Some es) = es"
  by (simp_all add: gm_entries_def)

lemma map_of_foldr_update:
  "map_of (foldr (\<lambda>(k, v). AList.update k v) xs ys) = map_of ys ++ map_of xs"
  by (induction xs) (auto simp: update_conv' map_add_def fun_eq_iff)

lemma gm_get_simps [simp]:
  "gm_get None k = None"
  "gm_get gm_make k = None"
  "gm_get (gm_copy gm_make m) k = gm_get m k"
  by (simp_all add: gm_get_def gm_make_def gm_copy_def map_of_foldr_update)

lemma gm_copy_not_nil [simp]: "gm_copy dst src \<noteq> None"
  by (simp add: gm_copy_def)

lemma gm_make_not_nil [simp]: "gm_make \<noteq> None"
  by (simp add: gm_make_def)

lemma gm_len_0 [simp]: "gm_len m = 0 \<longleftrightarrow> gm_entries m = []"
  by (simp add: gm_len_def)

lemma gm_set_not_nil: "m \<noteq> None \<Longrightarrow> \<exists>m'. gm_set k v m = Inr m'"
  by (auto simp: gm_set_def)

lemma gm_set_Inr: "gm_set k v m = Inr m' \<Longrightarrow> m' \<noteq> None \<and> gm_get m' = (gm_get m)(k \<mapsto> v)"
  by (auto simp: gm_set_def gm_get_def update_conv' fun_eq_iff split: option.splits)

lemma gm_set_Inl: "gm_set k v m = Inl p \<longleftrightarrow> m = None \<and> p = NilMapWrite"
  by (auto simp: gm_set_def split: option.splits)

lemma gm_put_get: "m \<noteq> None \<Longrightarrow> gm_get (gm_put k v m) = (gm_get m)(k \<mapsto> v)"
  by (auto simp: gm_put_def gm_set_def gm_get_def update_conv' fun_eq_iff split: option.splits)

lemma gm_put_not_nil [simp]: "gm_put k v m = None \<longleftrightarrow> m = None"
  by (auto simp: gm_put_def gm_set_def split: option.splits)

section \<open>Select\<close>

text \<open>
  A \<open>select\<close> is a list of branches, each with whether its channel operation can proceed
  at that moment and what the branch does. Go takes any one of the open branches; with none
  open and no default it blocks. \<open>select\<close> lists the results Go may produce.
\<close>

definition select :: "(bool \<times> 'a) list \<Rightarrow> 'a list" where
  "select bs = map snd (filter fst bs)"

lemma select_simps [simp, select_branches]:
  "select [] = []"
  "select ((True, x) # bs) = x # select bs"
  "select ((False, x) # bs) = select bs"
  by (simp_all add: select_def)

lemma set_select [select_branches]: "set (select bs) = {x. (True, x) \<in> set bs}"
  by (force simp: select_def)

lemma select_blocks: "select bs = [] \<longleftrightarrow> (\<forall>b \<in> set bs. \<not> fst b)"
  by (simp add: select_def filter_empty_conv)

section \<open>Reachable states and invariants\<close>

inductive reach :: "'s \<Rightarrow> ('s \<Rightarrow> 'e \<Rightarrow> 's \<Rightarrow> bool) \<Rightarrow> 's \<Rightarrow> bool"
  for start step where
  reach_start: "reach start step start"
| reach_step: "reach start step s \<Longrightarrow> step s e t \<Longrightarrow> reach start step t"

text \<open>A run along a given list of labels, for concrete executions.\<close>

fun run :: "('s \<Rightarrow> 'e \<Rightarrow> 's \<Rightarrow> bool) \<Rightarrow> 's \<Rightarrow> 'e list \<Rightarrow> 's \<Rightarrow> bool" where
  "run step s [] t \<longleftrightarrow> s = t"
| "run step s (e # es) t \<longleftrightarrow> (\<exists>u. step s e u \<and> run step u es t)"

lemma reach_run: "reach start step s \<Longrightarrow> run step s es t \<Longrightarrow> reach start step t"
  by (induction es arbitrary: s) (auto intro: reach_step)

lemma run_reach: "run step start es t \<Longrightarrow> reach start step t"
  by (rule reach_run [OF reach_start])

lemma run_append: "run step s (xs @ ys) t \<longleftrightarrow> (\<exists>u. run step s xs u \<and> run step u ys t)"
  by (induction xs arbitrary: s) auto

text \<open>
  The interface of a component with goroutines: its initial state, its labelled steps and a
  property each step keeps. Everything reachable then has the property.
\<close>

locale invariant_system =
  fixes start :: 's
    and step :: "'s \<Rightarrow> 'e \<Rightarrow> 's \<Rightarrow> bool"
    and inv :: "'s \<Rightarrow> bool"
  assumes inv_start: "inv start"
    and inv_step: "inv s \<Longrightarrow> step s e t \<Longrightarrow> inv t"
begin

lemma inv_reach: "reach start step s \<Longrightarrow> inv s"
  by (induction rule: reach.induct) (auto intro: inv_start inv_step)

lemma inv_run: "inv s \<Longrightarrow> run step s es t \<Longrightarrow> inv t"
  by (induction es arbitrary: s) (auto dest: inv_step)

end

end
