(* ===== verification/Errors.thy ===== *)
theory Errors
  imports Prelude
begin

text \<open>
  \<open>errors.go\<close> and \<open>retryable.go\<close>: the package's sentinel errors, Go's error values
  with the order in which \<open>errors.Is\<close> and \<open>errors.As\<close> visit them, and the
  retryable wrapper. An \<open>error\<close> variable is a \<open>go_error option\<close>, nil is \<open>None\<close>.
\<close>

section \<open>Sentinels\<close>

datatype sentinel =
    ErrClosingQueueConnection
  | ErrClosingQueueChannel
  | ErrStartingQueueConsumption
  | ErrPublishFailed
  | ErrPublishNack
  | ErrEmptyURL
  | ErrInvalidDelay
  | ErrInvalidRetryConfig
  | ErrInvalidPriority
  | ErrPushQueueConnectionClosed
  | ErrConsumeQueueConnectionClosed
  | ErrOpenChannel
  | ErrEnableConfirms
  | ErrConnectToQueue
  | ErrDoneSignalBeforeAck
  | ErrContextCanceledBeforeAck
  | ErrBindQueueToExchange
  | ErrQueueNotFound
  | ErrNoConsumersRegistered
  | ErrConsumersAlreadyStarted
  | ErrQueueConnectionClosed
  | ErrClientClosedBeforeReady
  | ErrFailHandlerRequired
  | ErrQueueConsumerOnly
  | ErrContextCanceledOnConsumerStart

text \<open>The message of each sentinel, as UTF-8 bytes (the dash of \<open>0-9\<close> is U+2013).\<close>

fun sentinel_text :: "sentinel \<Rightarrow> string" where
  "sentinel_text ErrClosingQueueConnection = ''error closing queue connection''"
| "sentinel_text ErrClosingQueueChannel = ''error closing queue channel''"
| "sentinel_text ErrStartingQueueConsumption = ''error starting queue consumption''"
| "sentinel_text ErrPublishFailed = ''error publishing message to queue''"
| "sentinel_text ErrPublishNack = ''broker nacked the published message''"
| "sentinel_text ErrEmptyURL = ''RabbitMQ URL is not set''"
| "sentinel_text ErrInvalidDelay = ''config delay must be greater than zero''"
| "sentinel_text ErrInvalidRetryConfig = ''invalid retry configuration''"
| "sentinel_text ErrInvalidPriority =
     ''message priority must be in range 0'' @ [CHR 0xE2, CHR 0x80, CHR 0x93] @ ''9''"
| "sentinel_text ErrPushQueueConnectionClosed = ''queue connection closed during publish''"
| "sentinel_text ErrConsumeQueueConnectionClosed = ''queue connection closed during consume''"
| "sentinel_text ErrOpenChannel = ''failed to open queue channel''"
| "sentinel_text ErrEnableConfirms = ''failed to enable publisher confirms''"
| "sentinel_text ErrConnectToQueue = ''failed to connect to queue at address''"
| "sentinel_text ErrDoneSignalBeforeAck = ''done signal received before publish confirm''"
| "sentinel_text ErrContextCanceledBeforeAck = ''context canceled before publish confirm''"
| "sentinel_text ErrBindQueueToExchange = ''error binding queue to exchange''"
| "sentinel_text ErrQueueNotFound = ''queue not found in configuration''"
| "sentinel_text ErrNoConsumersRegistered = ''no consumers registered''"
| "sentinel_text ErrConsumersAlreadyStarted = ''consumers already started''"
| "sentinel_text ErrQueueConnectionClosed = ''queue connection closed''"
| "sentinel_text ErrClientClosedBeforeReady = ''client closed before ready''"
| "sentinel_text ErrFailHandlerRequired = ''retry enabled but WithFailHandler was not provided''"
| "sentinel_text ErrQueueConsumerOnly = ''queue is configured for consume only (ConsumerOnly)''"
| "sentinel_text ErrContextCanceledOnConsumerStart = ''context canceled while starting consumers''"

section \<open>Error values\<close>

text \<open>The two errors \<open>ctx.Err()\<close> gives once a context is done.\<close>

datatype ctx_error = Canceled | DeadlineExceeded

text \<open>
  \<open>Errorf f args causes\<close> is \<open>fmt.Errorf(f, ...)\<close>: its format, its text arguments
  and the errors under its \<open>%w\<close> verbs, in order. \<open>RetryableError\<close> is
  \<open>*RetryableError\<close> with its field \<open>Err\<close>. \<open>Opaque\<close> is any error without
  \<open>Unwrap\<close> that this package does not make (an \<open>*amqp.Error\<close>, an \<open>errors.New\<close>
  of a handler).
\<close>

datatype go_error =
    Sentinel sentinel
  | CtxErr ctx_error
  | Errorf string "string list" "go_error list"
  | RetryableError "go_error option"
  | Opaque string

text \<open>\<open>Unwrap\<close>, in its single and its list form.\<close>

fun unwrap :: "go_error \<Rightarrow> go_error list" where
  "unwrap (Errorf f args causes) = causes"
| "unwrap (RetryableError (Some e)) = [e]"
| "unwrap _ = []"

text \<open>The errors \<open>errors.Is\<close> and \<open>errors.As\<close> look at: depth first, the error itself first.\<close>

fun chain :: "go_error \<Rightarrow> go_error list" where
  "chain (Errorf f args causes) = Errorf f args causes # concat (map chain causes)"
| "chain (RetryableError (Some e)) = RetryableError (Some e) # chain e"
| "chain (RetryableError None) = [RetryableError None]"
| "chain (Sentinel s) = [Sentinel s]"
| "chain (CtxErr c) = [CtxErr c]"
| "chain (Opaque t) = [Opaque t]"

text \<open>\<open>errors.Is(err, target)\<close> for a target compared by identity: a sentinel or a context error.\<close>

definition errors_is :: "go_error \<Rightarrow> sentinel \<Rightarrow> bool" where
  "errors_is e s \<longleftrightarrow> Sentinel s \<in> set (chain e)"

definition errors_is_ctx :: "go_error \<Rightarrow> ctx_error \<Rightarrow> bool" where
  "errors_is_ctx e c \<longleftrightarrow> CtxErr c \<in> set (chain e)"

lemma chain_unwrap: "chain e = e # concat (map chain (unwrap e))"
  by (induction e rule: chain.induct) auto

lemma errors_is_simps [simp]:
  "errors_is (Sentinel s') s \<longleftrightarrow> s' = s"
  "errors_is (CtxErr c) s \<longleftrightarrow> False"
  "errors_is (Opaque t) s \<longleftrightarrow> False"
  "errors_is (Errorf f args causes) s \<longleftrightarrow> (\<exists>e \<in> set causes. errors_is e s)"
  "errors_is (RetryableError (Some e)) s \<longleftrightarrow> errors_is e s"
  "errors_is (RetryableError None) s \<longleftrightarrow> False"
  by (auto simp: errors_is_def)

lemma errors_is_ctx_simps [simp]:
  "errors_is_ctx (Sentinel s) c \<longleftrightarrow> False"
  "errors_is_ctx (CtxErr c') c \<longleftrightarrow> c' = c"
  "errors_is_ctx (Opaque t) c \<longleftrightarrow> False"
  "errors_is_ctx (Errorf f args causes) c \<longleftrightarrow> (\<exists>e \<in> set causes. errors_is_ctx e c)"
  "errors_is_ctx (RetryableError (Some e)) c \<longleftrightarrow> errors_is_ctx e c"
  "errors_is_ctx (RetryableError None) c \<longleftrightarrow> False"
  by (auto simp: errors_is_ctx_def)

section \<open>Error messages\<close>

text \<open>
  \<open>fmt.Errorf\<close>'s text: a verb takes the next text argument, \<open>%w\<close> the message of the next
  wrapped error. \<open>%q\<close> quotes by \<open>quote\<close>, which stands for \<open>strconv.Quote\<close>, whose escapes
  depend on Unicode tables. A verb without an argument shows as in Go.
\<close>

definition missing :: "char \<Rightarrow> string" where
  "missing v = ''%!'' @ [v] @ ''(MISSING)''"

fun format_text :: "(string \<Rightarrow> string) \<Rightarrow> string \<Rightarrow> string list \<Rightarrow> string list \<Rightarrow> string" where
  "format_text quote [] args causes = []"
| "format_text quote [c] args causes = (if c = CHR ''%'' then ''%!(NOVERB)'' else [c])"
| "format_text quote (c # v # f) args causes =
     (if c \<noteq> CHR ''%'' then c # format_text quote (v # f) args causes
      else if v = CHR ''w'' then
        (case causes of [] \<Rightarrow> missing v @ format_text quote f args []
         | e # es \<Rightarrow> e @ format_text quote f args es)
      else
        (case args of [] \<Rightarrow> missing v @ format_text quote f [] causes
         | a # as \<Rightarrow> (if v = CHR ''q'' then quote a else a) @ format_text quote f as causes))"

text \<open>\<open>Error()\<close>, with \<open>RetryableError.Error\<close> in its two clauses.\<close>

fun error_text :: "(string \<Rightarrow> string) \<Rightarrow> go_error \<Rightarrow> string" where
  "error_text quote (Sentinel s) = sentinel_text s"
| "error_text quote (CtxErr Canceled) = ''context canceled''"
| "error_text quote (CtxErr DeadlineExceeded) = ''context deadline exceeded''"
| "error_text quote (Errorf f args causes) = format_text quote f args (map (error_text quote) causes)"
| "error_text quote (RetryableError None) = ''retryable message processing error''"
| "error_text quote (RetryableError (Some e)) = ''retryable message processing error: '' @ error_text quote e"
| "error_text quote (Opaque t) = t"

section \<open>Retryable errors\<close>

fun is_RetryableError :: "go_error \<Rightarrow> bool" where
  "is_RetryableError (RetryableError _) = True"
| "is_RetryableError _ = False"

text \<open>\<open>errors.As(err, &re)\<close>: the first \<open>*RetryableError\<close> of the chain, if any.\<close>

definition errors_as_retryable :: "go_error option \<Rightarrow> go_error option" where
  "errors_as_retryable e = (case e of None \<Rightarrow> None | Some e' \<Rightarrow> find is_RetryableError (chain e'))"

definition Retry :: "go_error option \<Rightarrow> go_error option" where
  "Retry err = (case err of None \<Rightarrow> None | Some e \<Rightarrow> Some (RetryableError (Some e)))"

definition IsRetryable :: "go_error option \<Rightarrow> bool" where
  "IsRetryable err \<longleftrightarrow> errors_as_retryable err \<noteq> None"

lemma IsRetryable_None [simp]: "\<not> IsRetryable None"
  by (simp add: IsRetryable_def errors_as_retryable_def)

lemma IsRetryable_chain: "IsRetryable (Some e) \<longleftrightarrow> (\<exists>x \<in> set (chain e). is_RetryableError x)"
  by (auto simp: IsRetryable_def errors_as_retryable_def find_None_iff)

lemma IsRetryable_simps [simp]:
  "IsRetryable (Some (Sentinel s)) \<longleftrightarrow> False"
  "IsRetryable (Some (CtxErr c)) \<longleftrightarrow> False"
  "IsRetryable (Some (Opaque t)) \<longleftrightarrow> False"
  "IsRetryable (Some (RetryableError oe)) \<longleftrightarrow> True"
  "IsRetryable (Some (Errorf f args causes)) \<longleftrightarrow> (\<exists>e \<in> set causes. IsRetryable (Some e))"
  by (cases oe; auto simp: IsRetryable_chain)+

text \<open>
  Wrapping, at any depth: \<open>wrapped_in e e'\<close> says \<open>e'\<close> is reached from \<open>e\<close> by a
  sequence of \<open>Unwrap\<close> calls.
\<close>

inductive wrapped_in :: "go_error \<Rightarrow> go_error \<Rightarrow> bool" where
  wrapped_refl: "wrapped_in e e"
| wrapped_step: "e' \<in> set (unwrap e) \<Longrightarrow> wrapped_in e' e'' \<Longrightarrow> wrapped_in e e''"

lemma wrapped_in_chain: "wrapped_in e e' \<Longrightarrow> set (chain e') \<subseteq> set (chain e)"
proof (induction rule: wrapped_in.induct)
  case (wrapped_refl e)
  show ?case by simp
next
  case (wrapped_step e' e e'')
  from wrapped_step.hyps(1) have "set (chain e') \<subseteq> set (chain e)"
    by (subst (2) chain_unwrap) auto
  with wrapped_step.IH show ?case by blast
qed

text \<open>
  \<open>Retry\<close> marks exactly the non-nil errors: \<open>Retry(nil)\<close> stays nil, anything else
  becomes retryable; the mark survives any number of \<open>%w\<close> wrappers the handler puts
  around it; and the sentinels of the wrapped error are still found through both.
\<close>

theorem Retry_marks:
  "(IsRetryable (Retry err) \<longleftrightarrow> err \<noteq> None) \<and>
   (wrapped_in outer (RetryableError (Some e)) \<longrightarrow>
      IsRetryable (Some outer) \<and> (\<forall>s. errors_is e s \<longrightarrow> errors_is outer s))"
proof -
  have "IsRetryable (Retry err) \<longleftrightarrow> err \<noteq> None"
    by (cases err) (simp_all add: Retry_def)
  moreover have "IsRetryable (Some outer) \<and> (\<forall>s. errors_is e s \<longrightarrow> errors_is outer s)"
    if "wrapped_in outer (RetryableError (Some e))"
    using wrapped_in_chain [OF that]
    by (auto simp: IsRetryable_chain errors_is_def intro!: bexI [of _ "RetryableError (Some e)"])
  ultimately show ?thesis by blast
qed

theorem Retry_marks_witness:
  "wrapped_in (Errorf ''%s: %w'' [''job''] [RetryableError (Some (Errorf ''%w'' [] [Sentinel ErrPublishNack]))])
     (RetryableError (Some (Errorf ''%w'' [] [Sentinel ErrPublishNack]))) \<and>
   IsRetryable (Some (Errorf ''%s: %w'' [''job''] [RetryableError (Some (Errorf ''%w'' [] [Sentinel ErrPublishNack]))])) \<and>
   errors_is (Errorf ''%s: %w'' [''job''] [RetryableError (Some (Errorf ''%w'' [] [Sentinel ErrPublishNack]))]) ErrPublishNack"
proof -
  let ?e = "Errorf ''%w'' [] [Sentinel ErrPublishNack]"
  let ?o = "Errorf ''%s: %w'' [''job''] [RetryableError (Some ?e)]"
  have w: "wrapped_in ?o (RetryableError (Some ?e))"
    by (rule wrapped_step [OF _ wrapped_refl]) simp
  then show ?thesis
    using Retry_marks [of None ?o ?e] by simp
qed

end
