(* ===== verification/Config.thy ===== *)
theory Config
  imports Errors
begin

text \<open>
  \<open>config.go\<close>, \<open>interfaces.go\<close> and \<open>options.go\<close>: the configuration, the types of the
  callbacks, the options of \<open>New\<close> and the validation of a configuration. A context is a
  value of the type variable \<open>'c\<close>; a nil interface or function value is \<open>None\<close>.
\<close>

section \<open>Data\<close>

type_synonym queue_name = string

record retry_config =
  Delay :: duration
  MaxDuration :: duration

record queue_item =
  Retry_of :: "retry_config option" \<comment> \<open>field Retry; nil means no retry\<close>
  ConsumerOnly :: bool

record config =
  URL :: string
  ReconnectDelay :: duration
  ReInitDelay :: duration
  ResendDelay :: duration
  QueueParams :: "(queue_name, queue_item) gomap"

text \<open>Header values: the code looks at strings only and writes strings.\<close>

datatype hval = HString string | HInt int | HOther string

type_synonym headers = "(string, hval) gomap"

text \<open>
  What a call of a user's function does: it returns, or it panics. A handler may do
  something else at each call, so it takes the \<open>moment\<close> of the call, an arbitrary number
  that tells the calls apart.
\<close>

datatype 'a outcome = Returned 'a | Panicked string

type_synonym moment = nat

record failed_job =
  job_Queue :: queue_name
  job_Body :: bytes
  job_Err :: "go_error option"

type_synonym fail_job_handler = "moment \<Rightarrow> failed_job \<Rightarrow> go_error option outcome"
type_synonym 'c publish_headers_builder = "'c \<Rightarrow> headers outcome"
type_synonym 'c consume_headers_extractor = "'c \<Rightarrow> headers \<Rightarrow> 'c outcome"
type_synonym 'c consumer_handler = "moment \<Rightarrow> 'c \<Rightarrow> bytes \<Rightarrow> go_error option outcome"

datatype logger = NilLogger | UserLogger string

datatype log_level = Debug | Info | Warn | Error

text \<open>The levels in slog's order of severity.\<close>

instantiation log_level :: linorder
begin

fun severity :: "log_level \<Rightarrow> int" where
  "severity Debug = -4"
| "severity Info = 0"
| "severity Warn = 4"
| "severity Error = 8"

definition less_eq_log_level :: "log_level \<Rightarrow> log_level \<Rightarrow> bool" where
  "less_eq_log_level a b \<longleftrightarrow> severity a \<le> severity b"

definition less_log_level :: "log_level \<Rightarrow> log_level \<Rightarrow> bool" where
  "less_log_level a b \<longleftrightarrow> severity a < severity b"

instance
proof
  fix a b :: log_level
  show "a \<le> b \<Longrightarrow> b \<le> a \<Longrightarrow> a = b"
    by (cases a; cases b) (simp_all add: less_eq_log_level_def)
qed (auto simp: less_eq_log_level_def less_log_level_def)

end

text \<open>
  A call of a logger's method: a nil interface panics, \<open>nilLogger\<close> does nothing, a user's logger
  gets the line. The methods with a context differ in that argument only.
\<close>

definition log_call ::
  "logger option \<Rightarrow> log_level \<Rightarrow> string \<Rightarrow> 'a list \<Rightarrow> panic + (string \<times> log_level \<times> string \<times> 'a list) list" where
  "log_call l level msg args =
     (case l of
        None \<Rightarrow> Inl NilFunc
      | Some NilLogger \<Rightarrow> Inr []
      | Some (UserLogger name) \<Rightarrow> Inr [(name, level, msg, args)])"

section \<open>Options\<close>

record 'c options =
  lgr :: "logger option"
  failHandler :: "fail_job_handler option"
  publishHeadersBuilder :: "'c publish_headers_builder option"
  consumeHeadersExtractor :: "'c consume_headers_extractor option"

text \<open>
  An \<open>Option\<close> is a closure over the unexported \<open>options\<close>, so callers have exactly these
  four; \<open>apply_option\<close> is the closure's body.
\<close>

datatype 'c go_option =
    WithLogger "logger option"
  | WithFailHandler "fail_job_handler option"
  | WithPublishHeadersBuilder "'c publish_headers_builder option"
  | WithConsumeHeadersExtractor "'c consume_headers_extractor option"

fun apply_option :: "'c options \<Rightarrow> 'c go_option \<Rightarrow> 'c options" where
  "apply_option o' (WithLogger l) = (if l \<noteq> None then o'\<lparr>lgr := l\<rparr> else o')"
| "apply_option o' (WithFailHandler h) = o'\<lparr>failHandler := h\<rparr>"
| "apply_option o' (WithPublishHeadersBuilder b) =
     (if b \<noteq> None then o'\<lparr>publishHeadersBuilder := b\<rparr> else o')"
| "apply_option o' (WithConsumeHeadersExtractor e) =
     (if e \<noteq> None then o'\<lparr>consumeHeadersExtractor := e\<rparr> else o')"

definition defaultOptions :: "'c options" where
  "defaultOptions =
     \<lparr>lgr = Some NilLogger, failHandler = None,
      publishHeadersBuilder = Some (\<lambda>_. Returned gm_make),
      consumeHeadersExtractor = Some (\<lambda>parent _. Returned parent)\<rparr>"

text \<open>The first lines of \<open>newQueueStore\<close>: the options in the order given.\<close>

definition resolve_options :: "'c go_option list \<Rightarrow> 'c options" where
  "resolve_options opts = foldl apply_option defaultOptions opts"

definition callable :: "'c options \<Rightarrow> bool" where
  "callable o' \<longleftrightarrow> lgr o' \<noteq> None \<and> publishHeadersBuilder o' \<noteq> None \<and> consumeHeadersExtractor o' \<noteq> None"

lemma callable_default: "callable defaultOptions"
  by (simp add: callable_def defaultOptions_def)

lemma callable_apply: "callable o' \<Longrightarrow> callable (apply_option o' opt)"
  by (cases opt) (simp_all add: callable_def)

lemma callable_foldl: "callable o' \<Longrightarrow> callable (foldl apply_option o' opts)"
  by (induction opts arbitrary: o') (simp_all add: callable_apply)

lemma callable_resolve: "callable (resolve_options opts)"
  by (simp add: resolve_options_def callable_foldl callable_default)

section \<open>Validation\<close>

definition validateRetryQueue :: "queue_name \<Rightarrow> queue_item \<Rightarrow> 'c options \<Rightarrow> go_error option" where
  "validateRetryQueue name item opts =
     (case Retry_of item of
        None \<Rightarrow> None
      | Some r \<Rightarrow>
          if failHandler opts = None then Some (Errorf ''%w: %s'' [name] [Sentinel ErrFailHandlerRequired])
          else if Delay r < millisecond then
            Some (Errorf ''%w: %s Delay'' [name] [Sentinel ErrInvalidRetryConfig])
          else if MaxDuration r \<le> 0 then
            Some (Errorf ''%w: %s MaxDuration'' [name] [Sentinel ErrInvalidRetryConfig])
          else None)"

text \<open>The \<open>range\<close> loop over the queues returns the first error it meets.\<close>

fun validateQueues :: "(queue_name \<times> queue_item) list \<Rightarrow> 'c options \<Rightarrow> go_error option" where
  "validateQueues [] opts = None"
| "validateQueues ((name, item) # es) opts =
     (case validateRetryQueue name item opts of
        Some err \<Rightarrow> Some err
      | None \<Rightarrow> validateQueues es opts)"

definition validateConfig :: "config \<Rightarrow> 'c options \<Rightarrow> go_error option" where
  "validateConfig conf opts =
     (if URL conf = [] then Some (Sentinel ErrEmptyURL)
      else if ReconnectDelay conf \<le> 0 then Some (Errorf ''%w: ReconnectDelay'' [] [Sentinel ErrInvalidDelay])
      else if ReInitDelay conf \<le> 0 then Some (Errorf ''%w: ReInitDelay'' [] [Sentinel ErrInvalidDelay])
      else if ResendDelay conf \<le> 0 then Some (Errorf ''%w: ResendDelay'' [] [Sentinel ErrInvalidDelay])
      else (case QueueParams conf of None \<Rightarrow> None | Some es \<Rightarrow> validateQueues es opts))"

text \<open>What a valid configuration promises the rest of the package.\<close>

definition valid_retry :: "retry_config \<Rightarrow> bool" where
  "valid_retry r \<longleftrightarrow> millisecond \<le> Delay r \<and> 0 < MaxDuration r"

definition valid_config :: "config \<Rightarrow> 'c options \<Rightarrow> bool" where
  "valid_config conf opts \<longleftrightarrow>
     URL conf \<noteq> [] \<and> 0 < ReconnectDelay conf \<and> 0 < ReInitDelay conf \<and> 0 < ResendDelay conf \<and>
     (\<forall>(name, item) \<in> set (gm_entries (QueueParams conf)).
        \<forall>r. Retry_of item = Some r \<longrightarrow> failHandler opts \<noteq> None \<and> valid_retry r)"

lemma validateRetryQueue_None:
  "validateRetryQueue name item opts = None \<longleftrightarrow>
     (\<forall>r. Retry_of item = Some r \<longrightarrow> failHandler opts \<noteq> None \<and> valid_retry r)"
  by (auto simp: validateRetryQueue_def valid_retry_def not_less not_le split: option.splits)

lemma validateQueues_None:
  "validateQueues es opts = None \<longleftrightarrow>
     (\<forall>(name, item) \<in> set es. \<forall>r. Retry_of item = Some r \<longrightarrow> failHandler opts \<noteq> None \<and> valid_retry r)"
proof (induction es opts rule: validateQueues.induct)
  case (2 name item es opts)
  then show ?case
    using validateRetryQueue_None [of name item opts]
    by (cases "validateRetryQueue name item opts") auto
qed simp

lemma validateRetryQueue_error:
  assumes "validateRetryQueue name item opts = Some err"
  shows "errors_is err ErrFailHandlerRequired \<and> failHandler opts = None \<or>
    errors_is err ErrInvalidRetryConfig \<and> failHandler opts \<noteq> None"
  using assms by (auto simp: validateRetryQueue_def split: option.splits if_splits)

lemma validateQueues_error:
  assumes "validateQueues es opts = Some err"
  shows "errors_is err ErrFailHandlerRequired \<and> failHandler opts = None \<or>
    errors_is err ErrInvalidRetryConfig \<and> failHandler opts \<noteq> None"
  using assms
  by (induction es opts rule: validateQueues.induct)
    (auto split: option.splits dest: validateRetryQueue_error)

lemma validateConfig_None: "validateConfig conf opts = None \<longleftrightarrow> valid_config conf opts"
  by (auto simp: validateConfig_def valid_config_def validateQueues_None split: option.splits)

text \<open>
  C10. \<open>validateConfig\<close> accepts exactly the valid configurations: a URL, three positive delays
  and, for every queue in retry mode, a fail handler, a delay of at least a millisecond and a
  positive budget. So the verdict does not depend on the order in which Go ranges over the
  queues. A rejection is one of the four documented sentinels.
\<close>

theorem validateConfig_correct:
  "(validateConfig conf opts = None \<longleftrightarrow> valid_config conf opts) \<and>
   (validateConfig conf opts = Some err \<longrightarrow>
      (\<exists>s \<in> {ErrEmptyURL, ErrInvalidDelay, ErrFailHandlerRequired, ErrInvalidRetryConfig}.
         errors_is err s))"
proof
  show "validateConfig conf opts = None \<longleftrightarrow> valid_config conf opts" by (rule validateConfig_None)
  show "validateConfig conf opts = Some err \<longrightarrow>
      (\<exists>s \<in> {ErrEmptyURL, ErrInvalidDelay, ErrFailHandlerRequired, ErrInvalidRetryConfig}.
         errors_is err s)"
    by (auto simp: validateConfig_def split: if_splits option.splits dest: validateQueues_error)
qed

definition sample_config :: config where
  "sample_config =
     \<lparr>URL = ''amqp://localhost'', ReconnectDelay = second, ReInitDelay = second, ResendDelay = second,
      QueueParams = Some [(''jobs'', \<lparr>Retry_of = Some \<lparr>Delay = 60 * second, MaxDuration = 3600 * second\<rparr>,
                                      ConsumerOnly = False\<rparr>),
                          (''plain'', \<lparr>Retry_of = None, ConsumerOnly = False\<rparr>),
                          (''sink'', \<lparr>Retry_of = None, ConsumerOnly = True\<rparr>)]\<rparr>"

theorem validateConfig_correct_witness:
  "validateConfig sample_config (defaultOptions :: nat options) =
     Some (Errorf ''%w: %s'' [''jobs''] [Sentinel ErrFailHandlerRequired]) \<and>
   errors_is (Errorf ''%w: %s'' [''jobs''] [Sentinel ErrFailHandlerRequired]) ErrFailHandlerRequired \<and>
   validateConfig sample_config
     (resolve_options [WithFailHandler (Some (\<lambda>_ _. Returned None))] :: nat options) = None"
proof -
  let ?err = "Errorf ''%w: %s'' [''jobs''] [Sentinel ErrFailHandlerRequired]"
  have r: "validateConfig sample_config (defaultOptions :: nat options) = Some ?err"
    by (simp add: validateConfig_def sample_config_def second_def millisecond_def
        validateRetryQueue_def defaultOptions_def)
  moreover have "valid_config sample_config
      (resolve_options [WithFailHandler (Some (\<lambda>_ _. Returned None))] :: nat options)"
    by (simp add: valid_config_def sample_config_def second_def millisecond_def resolve_options_def
        defaultOptions_def valid_retry_def)
  ultimately show ?thesis
    using validateConfig_correct [of sample_config "defaultOptions :: nat options" ?err]
      validateConfig_correct [of sample_config
        "resolve_options [WithFailHandler (Some (\<lambda>_ _. Returned None))] :: nat options" ?err]
    by simp
qed

lemma log_call_last:
  "l = (case ls of [] \<Rightarrow> Some NilLogger | x # _ \<Rightarrow> Some x) \<Longrightarrow>
     log_call l level msg args = (case ls of UserLogger name # _ \<Rightarrow> Inr [(name, level, msg, args)] | _ \<Rightarrow> Inr [])"
  by (auto simp: log_call_def split: list.splits logger.splits)

text \<open>
  C30. However the options are combined, nil arguments included: the headers builder and the
  headers extractor a store ends up with can be called; the fail handler is the argument of the
  last \<open>WithFailHandler\<close>, nil if there is none; and no log call panics: each goes to the logger of
  the last \<open>WithLogger\<close> that is not nil, or nowhere if there is none.
\<close>

theorem resolve_options_callable:
  "callable (resolve_options opts) \<and>
   failHandler (resolve_options opts) =
     (case rev [h. WithFailHandler h \<leftarrow> opts] of [] \<Rightarrow> None | h # _ \<Rightarrow> h) \<and>
   log_call (lgr (resolve_options opts)) level msg args =
     (case rev [l. WithLogger (Some l) \<leftarrow> opts] of
        UserLogger name # _ \<Rightarrow> Inr [(name, level, msg, args)]
      | _ \<Rightarrow> Inr [])"
proof (intro conjI)
  show "callable (resolve_options opts)" by (rule callable_resolve)
  show "failHandler (resolve_options opts) =
     (case rev [h. WithFailHandler h \<leftarrow> opts] of [] \<Rightarrow> None | h # _ \<Rightarrow> h)"
    unfolding resolve_options_def
  proof (induction opts rule: rev_induct)
    case Nil
    show ?case by (simp add: defaultOptions_def)
  next
    case (snoc opt opts)
    then show ?case by (cases opt) simp_all
  qed
  have "lgr (resolve_options opts) = (case rev [l. WithLogger (Some l) \<leftarrow> opts] of [] \<Rightarrow> Some NilLogger | l # _ \<Rightarrow> Some l)"
    unfolding resolve_options_def
  proof (induction opts rule: rev_induct)
    case Nil
    show ?case by (simp add: defaultOptions_def)
  next
    case (snoc opt opts)
    then show ?case by (cases opt) (auto split: option.splits)
  qed
  then show "log_call (lgr (resolve_options opts)) level msg args =
     (case rev [l. WithLogger (Some l) \<leftarrow> opts] of
        UserLogger name # _ \<Rightarrow> Inr [(name, level, msg, args)]
      | _ \<Rightarrow> Inr [])"
    by (rule log_call_last)
qed

end
