(* ===== verification/GoTime.thy ===== *)
theory GoTime
  imports Errors
begin

text \<open>
  What the package uses of Go's \<open>time\<close>: instants, \<open>Add\<close> and \<open>After\<close>, the
  rendering \<open>Format(time.RFC3339)\<close> in UTC, and \<open>time.Parse\<close> /
  \<open>time.ParseInLocation\<close> for the two layouts of \<open>parseExpiredTime\<close>. The parser is Go's
  general one, driven by the layout's chunks, with its leniencies (a one-digit hour, a
  fraction after the seconds that the layout does not have, runs of spaces). The special
  path Go tries first for RFC 3339 accepts a subset of it with the same results.
\<close>

section \<open>Instants\<close>

text \<open>A wall-clock instant: nanoseconds since 1970-01-01T00:00:00Z.\<close>

datatype gotime = Time (unix_nanos: int)

instantiation gotime :: linorder
begin

definition less_eq_gotime :: "gotime \<Rightarrow> gotime \<Rightarrow> bool" where
  "less_eq_gotime t u \<longleftrightarrow> unix_nanos t \<le> unix_nanos u"

definition less_gotime :: "gotime \<Rightarrow> gotime \<Rightarrow> bool" where
  "less_gotime t u \<longleftrightarrow> unix_nanos t < unix_nanos u"

instance
  by standard (auto simp: less_eq_gotime_def less_gotime_def gotime.expand)

end

definition time_add :: "gotime \<Rightarrow> duration \<Rightarrow> gotime" where
  "time_add t d = Time (unix_nanos t + d)"

definition time_after :: "gotime \<Rightarrow> gotime \<Rightarrow> bool" where
  "time_after t u \<longleftrightarrow> u < t"

text \<open>Seconds since the epoch, and the instant with its fraction of a second dropped.\<close>

definition unix_secs :: "gotime \<Rightarrow> int" where
  "unix_secs t = unix_nanos t div second"

definition trunc_sec :: "gotime \<Rightarrow> gotime" where
  "trunc_sec t = Time (unix_secs t * second)"

lemma trunc_sec_le: "trunc_sec t \<le> t"
  unfolding trunc_sec_def unix_secs_def less_eq_gotime_def second_def by simp

lemma trunc_sec_gt: "t < time_add (trunc_sec t) second"
  unfolding trunc_sec_def unix_secs_def less_gotime_def time_add_def second_def by simp

lemma trunc_sec_idem [simp]: "trunc_sec (trunc_sec t) = trunc_sec t"
  by (simp add: trunc_sec_def unix_secs_def second_def)

section \<open>The calendar\<close>

definition is_leap :: "int \<Rightarrow> bool" where
  "is_leap y \<longleftrightarrow> y mod 4 = 0 \<and> (y mod 100 \<noteq> 0 \<or> y mod 400 = 0)"

text \<open>Days before each month of a common year; index 12 is the whole year.\<close>

definition days_before :: "int list" where
  "days_before = [0, 31, 59, 90, 120, 151, 181, 212, 243, 273, 304, 334, 365]"

definition days_in :: "int \<Rightarrow> int \<Rightarrow> int" where
  "days_in m y =
     (if m = 2 \<and> is_leap y then 29
      else days_before ! nat m - days_before ! nat (m - 1))"

text \<open>Days from 0001-01-01 to the start of a year.\<close>

definition days_of_year :: "int \<Rightarrow> int" where
  "days_of_year y = 365 * (y - 1) + (y - 1) div 4 - (y - 1) div 100 + (y - 1) div 400"

text \<open>\<open>time.Date\<close>'s day count, from 0001-01-01.\<close>

definition days_of_civil :: "int \<Rightarrow> int \<Rightarrow> int \<Rightarrow> int" where
  "days_of_civil y m d =
     days_of_year y + days_before ! nat (m - 1) + (if is_leap y \<and> 3 \<le> m then 1 else 0) + (d - 1)"

text \<open>
  The way back (\<open>absDate\<close>): cut off 400-, 100-, 4- and 1-year cycles, the last 100-year and
  the last 1-year cycle being one day longer; then the month of the day in the year.
\<close>

definition year_yday :: "int \<Rightarrow> int \<times> int" where
  "year_yday days =
     (let n400 = days div 146097; d0 = days mod 146097;
          n = d0 div 36524; n100 = n - n div 4; d1 = d0 - 36524 * n100;
          n4 = d1 div 1461; d2 = d1 - 1461 * n4;
          k = d2 div 365; n1 = k - k div 4; d3 = d2 - 365 * n1
      in (400 * n400 + 100 * n100 + 4 * n4 + n1 + 1, d3))"

definition month_day_common :: "int \<Rightarrow> int \<times> int" where
  "month_day_common day =
     (let m = day div 31; end = days_before ! nat (m + 1)
      in if end \<le> day then (m + 2, day - end + 1)
         else (m + 1, day - days_before ! nat m + 1))"

definition month_day :: "bool \<Rightarrow> int \<Rightarrow> int \<times> int" where
  "month_day leap yday =
     (if leap \<and> yday = 59 then (2, 29)
      else month_day_common (if leap \<and> 59 < yday then yday - 1 else yday))"

definition civil_of_days :: "int \<Rightarrow> int \<times> int \<times> int" where
  "civil_of_days days =
     (let (y, yday) = year_yday days; (m, d) = month_day (is_leap y) yday in (y, m, d))"

lemma leap_400: "is_leap (400 * a + 400)"
  by (simp add: is_leap_def)

lemma leap_4: "0 \<le> c \<Longrightarrow> c < 24 \<Longrightarrow> is_leap (400 * a + 100 * b + 4 * c + 4)"
proof -
  assume c: "0 \<le> c" "c < 24"
  have "(400 * a + 100 * b + 4 * c + 4) mod 100 = (4 * c + 4 + (4 * a + b) * 100) mod 100"
    by (simp add: algebra_simps)
  also have "\<dots> = 4 * c + 4" using c by (simp only: mod_mult_self1) simp
  finally have "(400 * a + 100 * b + 4 * c + 4) mod 100 \<noteq> 0" using c by simp
  moreover have "(400 * a + 100 * b + 4 * c + 4) mod 4 = 0" by presburger
  ultimately show ?thesis by (simp add: is_leap_def)
qed

lemma year_yday_sound:
  assumes "year_yday days = (y, yday)"
  shows "days_of_year y + yday = days" "0 \<le> yday" "yday < (if is_leap y then 366 else 365)"
proof -
  define n400 d0 n n100 d1 n4 d2 k n1 d3 where defs:
    "n400 = days div 146097" "d0 = days mod 146097" "n = d0 div 36524" "n100 = n - n div 4"
    "d1 = d0 - 36524 * n100" "n4 = d1 div 1461" "d2 = d1 - 1461 * n4"
    "k = d2 div 365" "n1 = k - k div 4" "d3 = d2 - 365 * n1"
  have y: "y = 400 * n400 + 100 * n100 + 4 * n4 + n1 + 1" and yd: "yday = d3"
    using assms by (simp_all add: year_yday_def Let_def defs)
  have days: "days = 146097 * n400 + d0" and d0: "0 \<le> d0" "d0 < 146097"
    by (simp_all add: defs(1,2))
  have n: "0 \<le> n" "n \<le> 4" using d0 by (simp_all add: defs(3))
  have n100: "0 \<le> n100" "n100 \<le> 3" "n100 = (if n = 4 then 3 else n)"
    using n unfolding defs(4) by auto
  have nd: "36524 * n \<le> d0" "d0 < 36524 * n + 36524" unfolding defs(3) by linarith+
  have d1: "0 \<le> d1" "d1 < (if n100 = 3 then 36525 else 36524)"
    using nd n n100 d0 unfolding defs(5) by (auto split: if_splits)
  have n4: "0 \<le> n4" "n4 \<le> 24" using d1 by (auto simp: defs(6) split: if_splits)
  have d2: "0 \<le> d2" "d2 < 1461" unfolding defs(6,7) by linarith+
  have d2': "d2 < 1460" if "n4 = 24" "n100 \<noteq> 3"
    using that d1 unfolding defs(7) by auto
  have k: "0 \<le> k" "k \<le> 4" using d2 by (simp_all add: defs(8))
  have n1: "0 \<le> n1" "n1 \<le> 3" "n1 = (if k = 4 then 3 else k)"
    using k unfolding defs(9) by auto
  have kd: "365 * k \<le> d2" "d2 < 365 * k + 365" unfolding defs(8) by linarith+
  have d3: "0 \<le> d3" "d3 < (if n1 = 3 then 366 else 365)"
    using kd k n1 d2 unfolding defs(10) by (auto split: if_splits)
  have q4: "(y - 1) div 4 = 100 * n400 + 25 * n100 + n4" using y n1 by simp
  have q100: "(y - 1) div 100 = 4 * n400 + n100" using y n1 n4 by simp
  have q400: "(y - 1) div 400 = n400" using y n1 n4 n100 by simp
  have "days_of_year y =
      365 * (400 * n400 + 100 * n100 + 4 * n4 + n1) + (100 * n400 + 25 * n100 + n4)
      - (4 * n400 + n100) + n400"
    unfolding days_of_year_def q4 q100 q400 using y by simp
  then show "days_of_year y + yday = days"
    using days yd defs(5,7,10) by simp
  show "0 \<le> yday" using d3 yd by simp
  have "is_leap y" if "d3 = 365"
  proof -
    have "n1 = 3" using that d3 by (auto split: if_splits)
    moreover have "\<not> (n4 = 24 \<and> n100 \<noteq> 3)"
      using d2' that \<open>n1 = 3\<close> unfolding defs(10) by auto
    ultimately have y': "y = 400 * n400 + 100 * n100 + 4 * n4 + 4" "n4 = 24 \<Longrightarrow> n100 = 3"
      using y by auto
    show ?thesis
    proof (cases "n4 = 24")
      case True
      then have "y = 400 * n400 + 400" using y' by simp
      then show ?thesis by (simp only: leap_400)
    next
      case False
      then show ?thesis using n4 unfolding y'(1) by (intro leap_4) auto
    qed
  qed
  then show "yday < (if is_leap y then 366 else 365)"
    using d3 yd by (cases "d3 = 365") (auto split: if_splits)
qed

lemma int_0_to_11: "0 \<le> q \<Longrightarrow> q \<le> 11 \<Longrightarrow> q \<in> {0, 1, 2, 3, 4, 5, 6, 7, 8, 9, 10, 11::int}"
proof -
  assume "0 \<le> q" "q \<le> 11"
  then have "q \<in> set [0..11]" by simp
  then show ?thesis by (simp add: upto.simps)
qed

lemma month_day_common_sound:
  assumes "0 \<le> day" "day < 365" "month_day_common day = (m, d)"
  shows "1 \<le> m \<and> m \<le> 12 \<and> 1 \<le> d \<and>
    d \<le> days_before ! nat m - days_before ! nat (m - 1) \<and>
    days_before ! nat (m - 1) + (d - 1) = day"
proof -
  have "day div 31 \<in> {0, 1, 2, 3, 4, 5, 6, 7, 8, 9, 10, 11}"
    using assms(1,2) by (intro int_0_to_11) auto
  moreover have "31 * (day div 31) \<le> day" "day < 31 * (day div 31) + 31" by linarith+
  ultimately show ?thesis
    using assms
    by (elim insertE emptyE)
      (auto simp: month_day_common_def days_before_def Let_def split: if_splits)
qed

lemma month_day_sound:
  assumes "0 \<le> yday" "yday < (if is_leap y then 366 else 365)" "month_day (is_leap y) yday = (m, d)"
  shows "1 \<le> m \<and> m \<le> 12 \<and> 1 \<le> d \<and> d \<le> days_in m y \<and>
    days_before ! nat (m - 1) + (if is_leap y \<and> 3 \<le> m then 1 else 0) + (d - 1) = yday"
proof (cases "is_leap y \<and> yday = 59")
  case True
  then show ?thesis using assms(3) by (auto simp: month_day_def days_in_def days_before_def)
next
  case False
  define day where "day = (if is_leap y \<and> 59 < yday then yday - 1 else yday)"
  have md: "month_day_common day = (m, d)"
    using assms(3) False by (simp add: month_day_def day_def del: One_nat_def)
  have day: "0 \<le> day" "day < 365" using assms(1,2) by (auto simp: day_def split: if_splits)
  note c = month_day_common_sound [OF day md]
  have "3 \<le> m \<longleftrightarrow> 59 \<le> day"
  proof -
    have "m = 1 \<or> m = 2 \<or> 3 \<le> m" using c by linarith
    moreover have "59 \<le> days_before ! nat (m - 1)" if "3 \<le> m"
    proof -
      have "m - 1 \<in> {0, 1, 2, 3, 4, 5, 6, 7, 8, 9, 10, 11}" using c by (intro int_0_to_11) auto
      then show ?thesis using that by (elim insertE emptyE) (simp_all add: days_before_def)
    qed
    ultimately show ?thesis using c by (auto simp: days_before_def)
  qed
  moreover have "59 \<le> day \<longleftrightarrow> 59 < yday" if "is_leap y"
    using that False by (auto simp: day_def)
  ultimately show ?thesis
    using c by (auto simp: day_def days_in_def days_before_def split: if_splits)
qed

lemma civil_of_days_sound:
  assumes "civil_of_days days = (y, m, d)"
  shows "days_of_civil y m d = days" "1 \<le> m" "m \<le> 12" "1 \<le> d" "d \<le> days_in m y"
proof -
  obtain yday where y: "year_yday days = (y, yday)" and m: "month_day (is_leap y) yday = (m, d)"
    using assms by (auto simp: civil_of_days_def split: prod.splits)
  note a = year_yday_sound [OF y]
  note b = month_day_sound [OF a(2,3) m]
  show "days_of_civil y m d = days" "1 \<le> m" "m \<le> 12" "1 \<le> d" "d \<le> days_in m y"
    using a(1) b by (simp_all add: days_of_civil_def)
qed

lemma civil_year_range:
  assumes "civil_of_days days = (y, m, d)" "-366 \<le> days" "days < 3652059"
  shows "0 \<le> y \<and> y \<le> 9999"
proof -
  obtain yday where y: "year_yday days = (y, yday)"
    using assms by (auto simp: civil_of_days_def split: prod.splits)
  note a = year_yday_sound [OF y]
  have up: "yday < 366" using a(3) by (simp split: if_splits)
  have "\<not> y < 0"
  proof
    assume "y < 0"
    have "(y - 1) div 4 \<le> (y - 1) div 100" using \<open>y < 0\<close> by (intro zdiv_mono2_neg) auto
    moreover have "(y - 1) div 400 \<le> -1" using \<open>y < 0\<close> by (simp add: div_neg_pos_less0 zle_diff1_eq)
    moreover have "365 * (y - 1) + a - b + c \<le> 365 * (y - 1) - 1"
      if "a \<le> b" "c \<le> -1" for a b c :: int using that by simp
    ultimately have le: "days_of_year y \<le> 365 * (y - 1) - 1" unfolding days_of_year_def by blast
    show False
    proof (cases "y = -1")
      case True
      then show ?thesis using a(1,3) le assms(2) by (simp add: is_leap_def)
    next
      case False
      then show ?thesis using a(1) le up assms(2) \<open>y < 0\<close> by simp
    qed
  qed
  moreover have "\<not> 9999 < y"
  proof
    assume "9999 < y"
    have "3652059 \<le> days_of_year y"
    proof (cases "y = 10000")
      case True
      then show ?thesis by (simp add: days_of_year_def)
    next
      case False
      then have "10001 \<le> y" using \<open>9999 < y\<close> by simp
      have "24 \<le> (y - 1) div 400" using \<open>9999 < y\<close> zdiv_mono1 [of 9999 "y - 1" 400] by simp
      moreover have "y - 1 \<le> 4 * ((y - 1) div 4) + 3" "100 * ((y - 1) div 100) \<le> y - 1" by linarith+
      moreover have "3652059 \<le> 365 * (y - 1) + a - b + c"
        if "24 \<le> c" "y - 1 \<le> 4 * a + 3" "100 * b \<le> y - 1" for a b c :: int
        using that \<open>10001 \<le> y\<close> by simp
      ultimately show ?thesis unfolding days_of_year_def by blast
    qed
    then show False using a(1,2) assms(3) by simp
  qed
  ultimately show ?thesis by simp
qed

end
