(* ===== verification/TimeText.thy ===== *)
theory TimeText
  imports GoTime "HOL-Library.Char_ord"
begin

text \<open>
  \<open>Format(time.RFC3339)\<close> of a UTC instant and \<open>time.Parse\<close> for the layouts
  \<open>time.RFC3339\<close> and \<open>2006-01-02 15:04:05\<close>, as Go's standard library computes them, with
  the round trip between them. A parse error carries no information the package uses, so it
  is \<open>None\<close>.
\<close>

section \<open>Rendering\<close>

definition digit_char :: "int \<Rightarrow> char" where
  "digit_char n = char_of (48 + nat n)"

fun decimal :: "nat \<Rightarrow> string" where
  "decimal n = (if n < 10 then [digit_char (int n)] else decimal (n div 10) @ [digit_char (int (n mod 10))])"

declare decimal.simps [simp del]

text \<open>\<open>appendInt\<close>: the sign, then the digits, zero-padded to a width.\<close>

definition append_int :: "int \<Rightarrow> nat \<Rightarrow> string" where
  "append_int x w =
     (let ds = decimal (nat \<bar>x\<bar>)
      in (if x < 0 then ''-'' else []) @ replicate (w - length ds) (CHR ''0'') @ ds)"

definition format_date :: "int \<Rightarrow> string" where
  "format_date secs =
     (let (y, m, d) = civil_of_days (secs div 86400 + 719162)
      in append_int y 4 @ ''-'' @ append_int m 2 @ ''-'' @ append_int d 2)"

definition format_clock :: "int \<Rightarrow> string" where
  "format_clock secs =
     (let sod = secs mod 86400
      in append_int (sod div 3600) 2 @ '':'' @ append_int (sod div 60 mod 60) 2 @ '':'' @
         append_int (sod mod 60) 2)"

definition format_rfc3339 :: "gotime \<Rightarrow> string" where
  "format_rfc3339 t = format_date (unix_secs t) @ ''T'' @ format_clock (unix_secs t) @ ''Z''"

text \<open>The rendering earlier releases wrote, which \<open>parseExpiredTime\<close> still reads.\<close>

definition format_legacy :: "gotime \<Rightarrow> string" where
  "format_legacy t = format_date (unix_secs t) @ '' '' @ format_clock (unix_secs t)"

section \<open>Parsing\<close>

definition is_digit :: "char \<Rightarrow> bool" where
  "is_digit c \<longleftrightarrow> 48 \<le> (of_char c :: nat) \<and> (of_char c :: nat) \<le> 57"

definition digit_val :: "char \<Rightarrow> int" where
  "digit_val c = int (of_char c) - 48"

definition digits_val :: "string \<Rightarrow> int" where
  "digits_val = foldl (\<lambda>n c. 10 * n + digit_val c) 0"

text \<open>One or two digits; \<open>fixed\<close> asks for two.\<close>

definition getnum :: "bool \<Rightarrow> string \<Rightarrow> (int \<times> string) option" where
  "getnum fixed s =
     (case s of
        [] \<Rightarrow> None
      | c # r \<Rightarrow>
          if \<not> is_digit c then None
          else (case r of
              c' # r' \<Rightarrow>
                if is_digit c' then Some (10 * digit_val c + digit_val c', r')
                else if fixed then None else Some (digit_val c, r)
            | [] \<Rightarrow> if fixed then None else Some (digit_val c, r)))"

text \<open>The literal text before a chunk of the layout; a space there matches any run of spaces.\<close>

function skip :: "string \<Rightarrow> string \<Rightarrow> string option" where
  "skip value [] = Some value"
| "skip value (p # ps) =
     (if p = CHR '' '' then
        (if value \<noteq> [] \<and> hd value \<noteq> CHR '' '' then None
         else skip (dropWhile (\<lambda>c. c = CHR '' '') value) (dropWhile (\<lambda>c. c = CHR '' '') ps))
      else (case value of [] \<Rightarrow> None | v # vs \<Rightarrow> if v \<noteq> p then None else skip vs ps))"
  by pat_completeness auto
termination
  by (relation "measure (\<lambda>(v, p). length p)") (auto simp: le_imp_less_Suc length_dropWhile_le)

datatype std_chunk = StdLongYear | StdZeroMonth | StdZeroDay | StdHour | StdZeroMinute
  | StdZeroSecond | StdISO8601ColonTZ

text \<open>A layout: its chunks, each with the literal text before it.\<close>

type_synonym layout = "(string \<times> std_chunk) list"

definition rfc3339_layout :: layout where
  "rfc3339_layout =
     [([], StdLongYear), (''-'', StdZeroMonth), (''-'', StdZeroDay), (''T'', StdHour),
      ('':'', StdZeroMinute), ('':'', StdZeroSecond), ([], StdISO8601ColonTZ)]"

definition dateFormatLegacy :: layout where
  "dateFormatLegacy =
     [([], StdLongYear), (''-'', StdZeroMonth), (''-'', StdZeroDay), ('' '', StdHour),
      ('':'', StdZeroMinute), ('':'', StdZeroSecond)]"

record fields =
  f_year :: int
  f_month :: int
  f_day :: int
  f_hour :: int
  f_min :: int
  f_sec :: int
  f_nsec :: int
  f_zone :: int \<comment> \<open>offset from UTC in seconds; UTC when the layout has no zone\<close>

definition no_fields :: fields where
  "no_fields = \<lparr>f_year = 0, f_month = -1, f_day = -1, f_hour = 0, f_min = 0, f_sec = 0,
     f_nsec = 0, f_zone = 0\<rparr>"

text \<open>
  A fraction after the seconds: a comma or period and at least one digit. Nine digits
  count, the rest is dropped.
\<close>

definition fraction :: "string \<Rightarrow> int \<times> string" where
  "fraction s =
     (case s of
        p # c # r \<Rightarrow>
          if (p = CHR ''.'' \<or> p = CHR '','') \<and> is_digit c then
            (let ds = takeWhile is_digit (c # r); ds9 = take 9 ds
             in (digits_val ds9 * 10 ^ (9 - length ds9), dropWhile is_digit (c # r)))
          else (0, s)
      | _ \<Rightarrow> (0, s))"

definition parse_zone :: "string \<Rightarrow> (int \<times> string) option" where
  "parse_zone s =
     (if s \<noteq> [] \<and> hd s = CHR ''Z'' then Some (0, tl s)
      else if length s < 6 \<or> s ! 3 \<noteq> CHR '':'' then None
      else (case (getnum True (take 2 (drop 1 s)), getnum True (take 2 (drop 4 s))) of
          (Some (hr, _), Some (mm, _)) \<Rightarrow>
            if 24 < hr \<or> 60 < mm then None
            else if s ! 0 = CHR ''+'' then Some ((hr * 60 + mm) * 60, drop 6 s)
            else if s ! 0 = CHR ''-'' then Some (- ((hr * 60 + mm) * 60), drop 6 s)
            else None
        | _ \<Rightarrow> None))"

fun parse_chunk :: "std_chunk \<Rightarrow> fields \<Rightarrow> string \<Rightarrow> (fields \<times> string) option" where
  "parse_chunk StdLongYear f s =
     (if length s < 4 \<or> \<not> list_all is_digit (take 4 s) then None
      else Some (f\<lparr>f_year := digits_val (take 4 s)\<rparr>, drop 4 s))"
| "parse_chunk StdZeroMonth f s =
     (case getnum True s of
        None \<Rightarrow> None
      | Some (n, r) \<Rightarrow> if n \<le> 0 \<or> 12 < n then None else Some (f\<lparr>f_month := n\<rparr>, r))"
| "parse_chunk StdZeroDay f s =
     (case getnum True s of None \<Rightarrow> None | Some (n, r) \<Rightarrow> Some (f\<lparr>f_day := n\<rparr>, r))"
| "parse_chunk StdHour f s =
     (case getnum False s of
        None \<Rightarrow> None
      | Some (n, r) \<Rightarrow> if n < 0 \<or> 24 \<le> n then None else Some (f\<lparr>f_hour := n\<rparr>, r))"
| "parse_chunk StdZeroMinute f s =
     (case getnum True s of
        None \<Rightarrow> None
      | Some (n, r) \<Rightarrow> if n < 0 \<or> 60 \<le> n then None else Some (f\<lparr>f_min := n\<rparr>, r))"
| "parse_chunk StdZeroSecond f s =
     (case getnum True s of
        None \<Rightarrow> None
      | Some (n, r) \<Rightarrow>
          if n < 0 \<or> 60 \<le> n then None
          else (let (ns, r') = fraction r in Some (f\<lparr>f_sec := n, f_nsec := ns\<rparr>, r')))"
| "parse_chunk StdISO8601ColonTZ f s =
     (case parse_zone s of None \<Rightarrow> None | Some (z, r) \<Rightarrow> Some (f\<lparr>f_zone := z\<rparr>, r))"

fun parse_fields :: "layout \<Rightarrow> fields \<Rightarrow> string \<Rightarrow> fields option" where
  "parse_fields [] f s = (if s = [] then Some f else None)"
| "parse_fields ((lit, std) # l) f s =
     (case skip s lit of
        None \<Rightarrow> None
      | Some s' \<Rightarrow> (case parse_chunk std f s' of None \<Rightarrow> None | Some (f', r) \<Rightarrow> parse_fields l f' r))"

text \<open>\<open>Date\<close> in UTC, less the zone's offset.\<close>

definition date_time :: "fields \<Rightarrow> gotime" where
  "date_time f =
     Time (((days_of_civil (f_year f) (f_month f) (f_day f) - 719162) * 86400
            + f_hour f * 3600 + f_min f * 60 + f_sec f - f_zone f) * second + f_nsec f)"

definition time_parse :: "layout \<Rightarrow> string \<Rightarrow> gotime option" where
  "time_parse l s =
     (case parse_fields l no_fields s of
        None \<Rightarrow> None
      | Some f \<Rightarrow>
          if f_day f < 1 \<or> days_in (f_month f) (f_year f) < f_day f then None
          else Some (date_time f))"

section \<open>Round trip\<close>

lemma of_digit_char: "0 \<le> n \<Longrightarrow> n < 10 \<Longrightarrow> of_char (digit_char n) = 48 + nat n"
  by (simp add: digit_char_def)

lemma digit_char_simps [simp]:
  assumes "0 \<le> n" "n < 10"
  shows "is_digit (digit_char n)" "digit_val (digit_char n) = n"
  using assms by (simp_all add: is_digit_def digit_val_def of_digit_char)

lemma digit_char_0: "CHR ''0'' = digit_char 0"
  by code_simp

text \<open>The last \<open>w\<close> decimal digits of a number.\<close>

fun low_digits :: "nat \<Rightarrow> nat \<Rightarrow> string" where
  "low_digits 0 n = []"
| "low_digits (Suc w) n = low_digits w (n div 10) @ [digit_char (int (n mod 10))]"

lemma low_digits_0: "low_digits w 0 = replicate w (CHR ''0'')"
  by (induction w) (simp_all add: digit_char_0 replicate_append_same)

lemma decimal_low_digits:
  assumes "n < 10 ^ w" "0 < w"
  shows "length (decimal n) \<le> w \<and> replicate (w - length (decimal n)) (CHR ''0'') @ decimal n = low_digits w n"
  using assms
proof (induction w arbitrary: n)
  case 0
  then show ?case by simp
next
  case (Suc w)
  show ?case
  proof (cases "n < 10")
    case True
    then show ?thesis by (simp add: decimal.simps low_digits_0)
  next
    case False
    then have w: "0 < w" using Suc.prems by (cases w) auto
    moreover have "n div 10 < 10 ^ w" using Suc.prems by (simp add: div_less_iff_less_mult mult.commute)
    ultimately have "length (decimal (n div 10)) \<le> w"
      "replicate (w - length (decimal (n div 10))) (CHR ''0'') @ decimal (n div 10) = low_digits w (n div 10)"
      using Suc.IH by blast+
    then show ?thesis using False by (simp add: decimal.simps [of n] flip: append_assoc)
  qed
qed

lemma append_int_low_digits:
  assumes "0 \<le> n" "n < 10 ^ w" "0 < w"
  shows "append_int n w = low_digits w (nat n)"
proof -
  have "nat n < 10 ^ w" using assms by (simp add: nat_less_iff)
  then show ?thesis using decimal_low_digits assms by (simp add: append_int_def Let_def)
qed

lemma append_int_2:
  assumes "0 \<le> n" "n < 100"
  shows "append_int n 2 = [digit_char (n div 10), digit_char (n mod 10)]"
proof -
  have "append_int n 2 = low_digits 2 (nat n)" using assms by (intro append_int_low_digits) auto
  then show ?thesis using assms by (simp add: numeral_2_eq_2 nat_mod_distrib nat_div_distrib zmod_int zdiv_int)
qed

lemma append_int_4:
  assumes "0 \<le> n" "n < 10000"
  shows "append_int n 4 =
    [digit_char (n div 1000), digit_char (n div 100 mod 10), digit_char (n div 10 mod 10),
     digit_char (n mod 10)]"
proof -
  obtain k where k: "n = int k" using assms(1) nonneg_int_cases by blast
  have four: "4 = Suc (Suc (Suc (Suc 0)))" by simp
  have "append_int n 4 = low_digits 4 k" using assms k by (simp add: append_int_low_digits)
  also have "\<dots> = map (\<lambda>i. digit_char (int (k div 10 ^ i mod 10))) [3, 2, 1, 0]"
    unfolding four low_digits.simps by (simp add: div_mult2_eq [symmetric])
  finally have "append_int n 4 = map (\<lambda>i. digit_char (int (k div 10 ^ i mod 10))) [3, 2, 1, 0]" .
  moreover have "k div 10 ^ 3 mod 10 = k div 1000" using assms k by simp
  ultimately show ?thesis using k by (simp add: zdiv_int zmod_int)
qed

lemma getnum_append_int:
  assumes "0 \<le> n" "n < 100"
  shows "getnum fixed (append_int n 2 @ r) = Some (n, r)"
  using assms by (simp add: append_int_2 getnum_def)

lemma digits_val_4:
  "digits_val [a, b, c, d] =
     10 * (10 * (10 * digit_val a + digit_val b) + digit_val c) + digit_val d"
  by (simp add: digits_val_def)

lemma year_div_bound: "0 \<le> y \<Longrightarrow> y < 10000 \<Longrightarrow> y div 1000 < (10::int)"
  by linarith

lemma parse_year_append_int:
  assumes "0 \<le> y" "y < 10000"
  shows "parse_chunk StdLongYear f (append_int y 4 @ r) = Some (f\<lparr>f_year := y\<rparr>, r)"
proof -
  define a b c where "a = y div 10" "b = a div 10" "c = b div 10"
  have "10 * (10 * (10 * (y div 1000) + y div 100 mod 10) + y div 10 mod 10) + y mod 10 =
      10 * (10 * (10 * c + b mod 10) + a mod 10) + y mod 10"
    unfolding a_b_c_def by (simp only: zdiv_zmult2_eq [symmetric]) simp
  also have "\<dots> = y" unfolding a_b_c_def mult_div_mod_eq ..
  finally have "digits_val (append_int y 4) = y"
    using assms by (simp only: append_int_4 digits_val_4)
      (simp only: digit_char_simps pos_imp_zdiv_nonneg_iff zero_less_numeral
        pos_mod_bound pos_mod_sign year_div_bound)
  moreover have "length (append_int y 4) = 4" "list_all is_digit (append_int y 4)"
    using assms by (simp_all add: append_int_4)
  ultimately show ?thesis by simp
qed

lemma append_int_2_head:
  assumes "0 \<le> n" "n < 100"
  shows "append_int n 2 @ r \<noteq> []" "hd (append_int n 2 @ r) \<noteq> CHR '' ''"
proof -
  show "append_int n 2 @ r \<noteq> []" using assms by (simp add: append_int_2)
  have "is_digit (hd (append_int n 2 @ r))" using assms by (simp add: append_int_2)
  moreover have "\<not> is_digit (CHR '' '')" by (simp add: is_digit_def)
  ultimately show "hd (append_int n 2 @ r) \<noteq> CHR '' ''" by metis
qed

lemma skip_space:
  assumes "v \<noteq> []" "hd v \<noteq> CHR '' ''"
  shows "skip (CHR '' '' # v) '' '' = Some v"
  using assms by (cases v) simp_all

lemma skip_char [simp]: "p \<noteq> CHR '' '' \<Longrightarrow> skip (p # v) [p] = Some v"
  by simp

lemma fraction_none [simp]: "fraction [] = (0, [])" "fraction ''Z'' = (0, ''Z'')"
  by (simp_all add: fraction_def)

lemma parse_zone_Z [simp]: "parse_zone ''Z'' = Some (0, [])"
  by (simp add: parse_zone_def)

text \<open>The instants with a four-digit year, 0000-01-01 to 9999-12-31.\<close>

definition four_digit_year :: "gotime \<Rightarrow> bool" where
  "four_digit_year t \<longleftrightarrow> -62167219200 \<le> unix_secs t \<and> unix_secs t < 253402300800"

text \<open>The fields of an instant, as both layouts show them.\<close>

definition fields_of :: "gotime \<Rightarrow> fields" where
  "fields_of t =
     (let secs = unix_secs t; sod = secs mod 86400; (y, m, d) = civil_of_days (secs div 86400 + 719162)
      in \<lparr>f_year = y, f_month = m, f_day = d, f_hour = sod div 3600, f_min = sod div 60 mod 60,
          f_sec = sod mod 60, f_nsec = 0, f_zone = 0\<rparr>)"

lemma days_in_31: "1 \<le> m \<Longrightarrow> m \<le> 12 \<Longrightarrow> days_in m y \<le> 31"
  using int_0_to_11 [of "m - 1"]
  by (auto simp: days_in_def days_before_def diff_eq_eq)

lemma fields_of_ok:
  assumes "four_digit_year t"
  shows "0 \<le> f_year (fields_of t)" "f_year (fields_of t) < 10000"
    "1 \<le> f_month (fields_of t)" "f_month (fields_of t) \<le> 12"
    "1 \<le> f_day (fields_of t)" "f_day (fields_of t) \<le> 31"
    "f_day (fields_of t) \<le> days_in (f_month (fields_of t)) (f_year (fields_of t))"
    "0 \<le> f_hour (fields_of t)" "f_hour (fields_of t) < 24"
    "0 \<le> f_min (fields_of t)" "f_min (fields_of t) < 60"
    "0 \<le> f_sec (fields_of t)" "f_sec (fields_of t) < 60"
proof -
  define days sod where ds: "days = unix_secs t div 86400 + 719162" "sod = unix_secs t mod 86400"
  obtain y m d where ymd: "civil_of_days days = (y, m, d)" by (metis prod_cases3)
  have f: "fields_of t = \<lparr>f_year = y, f_month = m, f_day = d, f_hour = sod div 3600,
      f_min = sod div 60 mod 60, f_sec = sod mod 60, f_nsec = 0, f_zone = 0\<rparr>"
    using ymd by (simp add: fields_of_def ds [symmetric] Let_def)
  have sod: "0 \<le> sod" "sod < 86400" by (simp_all add: ds)
  have "-366 \<le> days" "days < 3652059"
    using assms unfolding four_digit_year_def ds by linarith+
  note yr = civil_year_range [OF ymd this] and c = civil_of_days_sound [OF ymd]
  show "0 \<le> f_year (fields_of t)" "f_year (fields_of t) < 10000" using yr by (simp_all add: f)
  show "1 \<le> f_month (fields_of t)" "f_month (fields_of t) \<le> 12" "1 \<le> f_day (fields_of t)"
    "f_day (fields_of t) \<le> days_in (f_month (fields_of t)) (f_year (fields_of t))"
    using c by (simp_all add: f)
  then show "f_day (fields_of t) \<le> 31"
    using days_in_31 [of "f_month (fields_of t)" "f_year (fields_of t)"] by simp
  show "0 \<le> f_hour (fields_of t)" "f_hour (fields_of t) < 24" using sod by (simp_all add: f)
  show "0 \<le> f_min (fields_of t)" "f_min (fields_of t) < 60"
    "0 \<le> f_sec (fields_of t)" "f_sec (fields_of t) < 60" by (simp_all add: f)
qed

lemma date_time_fields_of: "date_time (fields_of t) = trunc_sec t"
proof -
  define secs days sod where ds: "secs = unix_secs t" "days = secs div 86400 + 719162" "sod = secs mod 86400"
  obtain y m d where ymd: "civil_of_days days = (y, m, d)" by (metis prod_cases3)
  have f: "fields_of t = \<lparr>f_year = y, f_month = m, f_day = d, f_hour = sod div 3600,
      f_min = sod div 60 mod 60, f_sec = sod mod 60, f_nsec = 0, f_zone = 0\<rparr>"
    using ymd by (simp add: fields_of_def ds Let_def)
  have "sod div 3600 = sod div 60 div 60" by (simp add: zdiv_zmult2_eq [symmetric])
  moreover have "sod = 60 * (sod div 60) + sod mod 60"
    "sod div 60 = 60 * (sod div 60 div 60) + sod div 60 mod 60" by (simp_all only: mult_div_mod_eq)
  ultimately have "sod div 3600 * 3600 + sod div 60 mod 60 * 60 + sod mod 60 = sod" by linarith
  moreover have "secs = (days - 719162) * 86400 + sod" by (simp add: ds)
  ultimately show ?thesis
    using civil_of_days_sound(1) [OF ymd] by (simp add: date_time_def f trunc_sec_def ds(1) [symmetric])
qed

lemma format_fields:
  "format_date (unix_secs t) =
     append_int (f_year (fields_of t)) 4 @ ''-'' @ append_int (f_month (fields_of t)) 2 @ ''-'' @
     append_int (f_day (fields_of t)) 2"
  "format_clock (unix_secs t) =
     append_int (f_hour (fields_of t)) 2 @ '':'' @ append_int (f_min (fields_of t)) 2 @ '':'' @
     append_int (f_sec (fields_of t)) 2"
  by (simp_all add: format_date_def format_clock_def fields_of_def Let_def split: prod.splits)

lemma parse_fields_rfc3339:
  assumes "four_digit_year t"
  shows "parse_fields rfc3339_layout no_fields (format_rfc3339 t) = Some (fields_of t)"
proof -
  note ok = fields_of_ok [OF assms]
  have z: "f_nsec (fields_of t) = 0" "f_zone (fields_of t) = 0"
    by (simp_all add: fields_of_def Let_def split: prod.splits)
  show ?thesis
    using ok z unfolding rfc3339_layout_def format_rfc3339_def format_fields
    by (simp add: parse_year_append_int getnum_append_int no_fields_def del: parse_chunk.simps(1))
qed

lemma parse_fields_legacy:
  assumes "four_digit_year t"
  shows "parse_fields dateFormatLegacy no_fields (format_legacy t) = Some (fields_of t)"
proof -
  note ok = fields_of_ok [OF assms]
  have z: "f_nsec (fields_of t) = 0" "f_zone (fields_of t) = 0"
    by (simp_all add: fields_of_def Let_def split: prod.splits)
  show ?thesis
    using ok z unfolding dateFormatLegacy_def format_legacy_def format_fields
    by (simp add: parse_year_append_int getnum_append_int no_fields_def skip_space
        append_int_2_head getnum_append_int [where r = "[]", simplified]
        del: parse_chunk.simps(1) skip.simps(2))
qed

lemma parse_fields_rfc3339_legacy_text:
  assumes "four_digit_year t"
  shows "parse_fields rfc3339_layout no_fields (format_legacy t) = None"
proof -
  note ok = fields_of_ok [OF assms]
  show ?thesis
    using ok unfolding rfc3339_layout_def format_legacy_def format_fields
    by (simp add: parse_year_append_int getnum_append_int no_fields_def del: parse_chunk.simps(1))
qed

lemma time_parse_fields_of:
  assumes "four_digit_year t" "parse_fields l no_fields s = Some (fields_of t)"
  shows "time_parse l s = Some (trunc_sec t)"
  using fields_of_ok [OF assms(1)] assms(2)
  by (simp add: time_parse_def date_time_fields_of del: One_nat_def)

text \<open>Formatting and parsing back drops the fraction of a second, and nothing else.\<close>

lemma time_parse_format_rfc3339:
  "four_digit_year t \<Longrightarrow> time_parse rfc3339_layout (format_rfc3339 t) = Some (trunc_sec t)"
  by (intro time_parse_fields_of parse_fields_rfc3339)

lemma time_parse_format_legacy:
  "four_digit_year t \<Longrightarrow> time_parse dateFormatLegacy (format_legacy t) = Some (trunc_sec t)"
  by (intro time_parse_fields_of parse_fields_legacy)

lemma time_parse_rfc3339_legacy_text:
  "four_digit_year t \<Longrightarrow> time_parse rfc3339_layout (format_legacy t) = None"
  by (simp add: time_parse_def parse_fields_rfc3339_legacy_text)

end
