(* ===== verification/Deadline.thy ===== *)
theory Deadline
  imports TimeText
begin

text \<open>
  The retry deadline a message carries in its \<open>expired\<close> header: \<open>unsafePush\<close> stamps
  it, \<open>parseExpiredTime\<close> and \<open>isExpired\<close> of client.go read it. The contract between
  the two sides is the locale \<open>deadline_codec\<close>, interpreted on the RFC 3339 stamp that the
  code writes now and on the legacy stamp it still accepts.
\<close>

section \<open>The code\<close>

text \<open>\<open>now.Add(maxRetryDuration).Format(time.RFC3339)\<close> of \<open>unsafePush\<close>.\<close>

definition expired_stamp :: "gotime \<Rightarrow> duration \<Rightarrow> string" where
  "expired_stamp now d = format_rfc3339 (time_add now d)"

definition parseExpiredTime :: "string \<Rightarrow> go_error + gotime" where
  "parseExpiredTime s =
     (case time_parse rfc3339_layout s of
        Some t \<Rightarrow> Inr t
      | None \<Rightarrow>
          (case time_parse dateFormatLegacy s of
             Some t \<Rightarrow> Inr t
           | None \<Rightarrow> Inl (Errorf ''failed to parse legacy expired %q: %w'' [s] [Opaque ''time.ParseError''])))"

definition isExpired :: "gotime \<Rightarrow> string \<Rightarrow> bool" where
  "isExpired now s =
     (if s = [] then True
      else case parseExpiredTime s of Inl _ \<Rightarrow> True | Inr t \<Rightarrow> time_after now t)"

section \<open>The contract\<close>

text \<open>
  A stamp that reads back as an instant at most a second earlier, and a check that compares
  the instant read with the clock. For a deadline \<open>t\<close> that can be stamped (\<open>ok\<close>), the
  check is then never late, and early by less than a second.
\<close>

locale deadline_codec =
  fixes stamp :: "gotime \<Rightarrow> string"
    and ok :: "gotime \<Rightarrow> bool"
    and expired :: "gotime \<Rightarrow> string \<Rightarrow> bool"
  assumes expired_stamp: "ok t \<Longrightarrow> expired now (stamp t) \<longleftrightarrow> trunc_sec t < now"
begin

lemma not_late: "ok t \<Longrightarrow> t < now \<Longrightarrow> expired now (stamp t)"
  using trunc_sec_le [of t] by (simp add: expired_stamp)

lemma not_early: "ok t \<Longrightarrow> time_add now second \<le> t \<Longrightarrow> \<not> expired now (stamp t)"
  using trunc_sec_gt [of t]
  by (simp add: expired_stamp less_gotime_def less_eq_gotime_def time_add_def)

lemma once_expired: "ok t \<Longrightarrow> expired now (stamp t) \<Longrightarrow> now \<le> now' \<Longrightarrow> expired now' (stamp t)"
  by (simp add: expired_stamp)

lemma expires_at_once: "ok t \<Longrightarrow> unix_secs now = unix_secs t \<Longrightarrow> trunc_sec now \<noteq> now \<Longrightarrow> expired now (stamp t)"
  using trunc_sec_le [of now] by (simp add: expired_stamp trunc_sec_def)

end

lemma format_rfc3339_not_nil: "format_rfc3339 t \<noteq> []"
  by (simp add: format_rfc3339_def)

lemma format_legacy_not_nil: "format_legacy t \<noteq> []"
  by (simp add: format_legacy_def)

interpretation rfc3339: deadline_codec format_rfc3339 four_digit_year isExpired
  by unfold_locales
    (simp add: isExpired_def parseExpiredTime_def time_parse_format_rfc3339 format_rfc3339_not_nil
      time_after_def)

interpretation legacy: deadline_codec format_legacy four_digit_year isExpired
  by unfold_locales
    (simp add: isExpired_def parseExpiredTime_def time_parse_format_legacy
      time_parse_rfc3339_legacy_text format_legacy_not_nil time_after_def)

section \<open>Properties\<close>

text \<open>
  C14. \<open>parseExpiredTime\<close> reads back what either release of the publisher wrote, the
  RFC 3339 stamp and the legacy stamp of the same instant, as that instant with its fraction
  of a second dropped (years 0 to 9999).
\<close>

theorem parseExpiredTime_roundtrip:
  "four_digit_year t \<Longrightarrow>
     parseExpiredTime (format_rfc3339 t) = Inr (trunc_sec t) \<and>
     parseExpiredTime (format_legacy t) = Inr (trunc_sec t)"
  by (simp add: parseExpiredTime_def time_parse_format_rfc3339 time_parse_format_legacy
      time_parse_rfc3339_legacy_text)

theorem parseExpiredTime_roundtrip_witness:
  "parseExpiredTime (format_rfc3339 (Time 1709210096500000000)) = Inr (Time 1709210096000000000) \<and>
   parseExpiredTime (format_legacy (Time 1709210096500000000)) = Inr (Time 1709210096000000000)"
  using parseExpiredTime_roundtrip [of "Time 1709210096500000000"]
  by (simp add: four_digit_year_def unix_secs_def trunc_sec_def second_def)

text \<open>
  C13. The deadline is enforced to the second: a message stamped at \<open>t0\<close> with a retry
  budget \<open>d\<close> counts as expired at every instant past \<open>t0 + d\<close>, never at one that is a
  second or more before it, and once expired it stays expired.
\<close>

theorem deadline_enforced:
  assumes "four_digit_year (time_add t0 d)"
  shows "(time_add t0 d < now \<longrightarrow> isExpired now (expired_stamp t0 d)) \<and>
    (time_add now second \<le> time_add t0 d \<longrightarrow> \<not> isExpired now (expired_stamp t0 d)) \<and>
    (isExpired now (expired_stamp t0 d) \<longrightarrow> now \<le> later \<longrightarrow> isExpired later (expired_stamp t0 d))"
  unfolding expired_stamp_def
  using rfc3339.not_late [OF assms] rfc3339.not_early [OF assms] rfc3339.once_expired [OF assms]
  by blast

theorem deadline_enforced_witness:
  "\<not> isExpired (Time 1709210096500000000) (expired_stamp (Time 1709210096500000000) (3600 * second)) \<and>
   isExpired (Time 1709213697500000000) (expired_stamp (Time 1709210096500000000) (3600 * second))"
  using deadline_enforced [of "Time 1709210096500000000" "3600 * second" "Time 1709210096500000000"]
    deadline_enforced [of "Time 1709210096500000000" "3600 * second" "Time 1709213697500000000"]
  by (simp add: four_digit_year_def unix_secs_def time_add_def second_def less_gotime_def less_eq_gotime_def)

text \<open>
  A budget below a second can be spent before the message is sent: when stamp and
  deadline fall in the same second, and the clock is not on a whole second, the message is
  already expired at the very instant it is stamped.
\<close>

theorem subsecond_budget_expires_at_once:
  assumes "four_digit_year (time_add t0 d)" "0 < d" "unix_secs (time_add t0 d) = unix_secs t0"
    "trunc_sec t0 \<noteq> t0"
  shows "isExpired t0 (expired_stamp t0 d)"
  unfolding expired_stamp_def using rfc3339.expires_at_once [OF assms(1)] assms(3,4) by simp

theorem subsecond_budget_expires_at_once_witness:
  "isExpired (Time 1709210096100000000) (expired_stamp (Time 1709210096100000000) (500 * millisecond))"
  by (rule subsecond_budget_expires_at_once)
    (simp_all add: four_digit_year_def unix_secs_def trunc_sec_def time_add_def second_def millisecond_def)

end
