(* ===== verification/State.thy ===== *)
theory State
  imports Config Deadline
begin

text \<open>
  The package's two structures, \<open>client\<close> (client.go) and \<open>queueStore\<close> (queue.go), the
  header tables, and the trace of what an operation does to the outside world. Connections
  and AMQP channels are numbers handed out by the AMQP library; a notification channel is named
  by the connection or AMQP channel it is registered with; \<open>done_closed\<close> and \<open>ready_closed\<close>
  say whether the Go channels \<open>done\<close> and \<open>ready\<close> are closed.
\<close>

type_synonym conn_id = nat
type_synonym chan_id = nat
type_synonym ctx_id = nat

record 'c client =
  conn :: "conn_id option"
  ch :: "chan_id option"
  notifyConnClose :: "conn_id option"
  notifyChanClose :: "chan_id option"
  notifyConfirm :: "chan_id option"
  done_closed :: bool
  ready_closed :: bool
  queueName :: queue_name
  isReady :: bool
  closeOnce :: bool \<comment> \<open>the close has run\<close>
  startOnce :: bool \<comment> \<open>the reconnect loop has been started\<close>
  brokerURL :: string
  clientLgr :: "logger option"
  retry :: "retry_config option"
  clientReconnectDelay :: duration
  clientReInitDelay :: duration
  clientResendDelay :: duration
  callback :: "'c consumer_handler option"
  consumerDone :: "ctx_id option" \<comment> \<open>the context whose Done channel it is; nil is None\<close>
  PublishHeadersBuilder :: "'c publish_headers_builder option"
  ConsumeHeadersExtractor :: "'c consume_headers_extractor option"

definition withRetry :: "'c client \<Rightarrow> bool" where
  "withRetry c \<longleftrightarrow> retry c \<noteq> None"

text \<open>Clients are shared by pointer; \<open>publishers\<close> and \<open>consumers\<close> hold their addresses.\<close>

type_synonym addr = nat

record 'c queueStore =
  storeConfig :: config
  storeLgr :: "logger option"
  failJobHandler :: "fail_job_handler option"
  storePublishHeadersBuilder :: "'c publish_headers_builder option"
  storeConsumeHeadersExtractor :: "'c consume_headers_extractor option"
  publishers :: "(queue_name, addr) gomap"
  consumers :: "(queue_name, addr list) gomap"
  consumersStarted :: bool
  inflight :: int

section \<open>New clients\<close>

text \<open>\<open>newClient\<close> and \<open>newPublisherClient\<close> of queue.go.\<close>

definition newClient :: "queue_name \<Rightarrow> queue_item \<Rightarrow> config \<Rightarrow> logger option \<Rightarrow> 'c client" where
  "newClient name param conf l =
     \<lparr>conn = None, ch = None, notifyConnClose = None, notifyChanClose = None, notifyConfirm = None,
      done_closed = False, ready_closed = False, queueName = name, isReady = False,
      closeOnce = False, startOnce = False, brokerURL = URL conf, clientLgr = l,
      retry = Retry_of param,
      clientReconnectDelay = ReconnectDelay conf, clientReInitDelay = ReInitDelay conf,
      clientResendDelay = ResendDelay conf,
      callback = None, consumerDone = None, PublishHeadersBuilder = None,
      ConsumeHeadersExtractor = None\<rparr>"

definition newPublisherClient :: "queue_name \<Rightarrow> queue_item \<Rightarrow> config \<Rightarrow> 'c options \<Rightarrow> 'c client" where
  "newPublisherClient name param conf cfgOpts =
     (newClient name param conf (lgr cfgOpts))\<lparr>PublishHeadersBuilder := publishHeadersBuilder cfgOpts\<rparr>"

section \<open>Header tables\<close>

text \<open>\<open>mapToAMQPTable\<close> and \<open>amqpTableToMap\<close> copy: the result is never nil.\<close>

definition mapToAMQPTable :: "headers \<Rightarrow> headers" where
  "mapToAMQPTable values = (if gm_len values = 0 then gm_make else gm_copy gm_make values)"

definition amqpTableToMap :: "headers \<Rightarrow> headers" where
  "amqpTableToMap table = (if gm_len table = 0 then gm_make else gm_copy gm_make table)"

text \<open>The contract of both: a fresh, writable table with the same entries.\<close>

locale table_copy =
  fixes copy :: "headers \<Rightarrow> headers"
  assumes copy_not_nil: "copy m \<noteq> None"
    and copy_get: "gm_get (copy m) k = gm_get m k"
begin

lemma copy_writable: "\<exists>m'. gm_set k v (copy m) = Inr m'"
  by (rule gm_set_not_nil [OF copy_not_nil])

lemma copy_set: "gm_set k v (copy m) = Inr m' \<Longrightarrow> gm_get m' = (gm_get m)(k \<mapsto> v)"
  by (drule gm_set_Inr) (auto simp: copy_get)

end

interpretation to_table: table_copy mapToAMQPTable
proof
  fix m :: headers and k
  show "mapToAMQPTable m \<noteq> None" by (simp add: mapToAMQPTable_def gm_make_def gm_copy_def)
  show "gm_get (mapToAMQPTable m) k = gm_get m k"
    by (simp add: mapToAMQPTable_def) (simp add: gm_get_def)
qed

interpretation to_map: table_copy amqpTableToMap
proof
  fix m :: headers and k
  show "amqpTableToMap m \<noteq> None" by (simp add: amqpTableToMap_def gm_make_def gm_copy_def)
  show "gm_get (amqpTableToMap m) k = gm_get m k"
    by (simp add: amqpTableToMap_def) (simp add: gm_get_def)
qed

section \<open>Effects\<close>

text \<open>What is done with a delivery: the calls of its acknowledger.\<close>

datatype settlement = Ack bool | Nack bool bool | Reject bool

datatype log_arg = LogErr go_error | LogText string

datatype 'c effect =
    InflightAdd
  | InflightDone
  | Extract 'c headers
  | Handle 'c bytes
  | FailJob failed_job
  | Settle settlement
  | Log log_level string "log_arg list"

section \<open>Samples\<close>

text \<open>A client in retry mode and a store with a fail handler, for concrete runs.\<close>

definition sample_client :: "nat client" where
  "sample_client =
     \<lparr>conn = None, ch = None, notifyConnClose = None, notifyChanClose = None, notifyConfirm = None,
      done_closed = False, ready_closed = False, queueName = ''jobs'', isReady = False,
      closeOnce = False, startOnce = False, brokerURL = ''amqp://localhost'', clientLgr = Some NilLogger,
      retry = Some \<lparr>Delay = 60 * second, MaxDuration = 3600 * second\<rparr>,
      clientReconnectDelay = second, clientReInitDelay = second, clientResendDelay = second,
      callback = None, consumerDone = None,
      PublishHeadersBuilder = Some (\<lambda>_. Returned gm_make),
      ConsumeHeadersExtractor = Some (\<lambda>parent _. Returned parent)\<rparr>"

definition sample_store :: "nat queueStore" where
  "sample_store =
     \<lparr>storeConfig = sample_config, storeLgr = Some NilLogger,
      failJobHandler = Some (\<lambda>_ _. Returned None), storePublishHeadersBuilder = None,
      storeConsumeHeadersExtractor = None, publishers = gm_make, consumers = gm_make,
      consumersStarted = True, inflight = 0\<rparr>"

end
