(* ===== verification/Publish.thy ===== *)
theory Publish
  imports State
begin

text \<open>
  The publishing operations of client.go that do not loop: \<open>unsafePush\<close>, and the three
  waits of \<open>push\<close> as the branches their \<open>select\<close> may take. \<open>unsafePush\<close> is split where
  another goroutine can interfere: \<open>unsafePush_prepare\<close> reads \<open>isReady\<close> and builds the
  publishing, \<open>unsafePush_send\<close> reads \<open>ch\<close> and calls the library.
\<close>

section \<open>Messages\<close>

text \<open>\<open>PublishMessagePriority\<close> is a uint8.\<close>

type_synonym priority = "8 word"

record publish_message =
  msg_Body :: bytes
  msg_ContentType :: string
  msg_MaxRetryDuration :: "duration option"
  msg_Priority :: "priority option"

datatype delivery_mode = Transient | Persistent

text \<open>The fields of \<open>amqp.Publishing\<close> the code sets; the others stay zero.\<close>

record publishing =
  pub_DeliveryMode :: delivery_mode
  pub_ContentType :: string
  pub_Body :: bytes
  pub_Timestamp :: gotime
  pub_Headers :: headers
  pub_Priority :: "8 word"

text \<open>A call of \<open>PublishWithContext\<close>, its context's timeout included.\<close>

record publish_call =
  call_Timeout :: duration
  call_Exchange :: string
  call_Key :: string
  call_Mandatory :: bool
  call_Immediate :: bool
  call_Publishing :: publishing

definition DefaultContentType :: string where "DefaultContentType = ''text/plain''"
definition maxPublishMessagePriority :: priority where "maxPublishMessagePriority = 9"
definition maxPushProcessingTime :: duration where "maxPushProcessingTime = 30 * second"

section \<open>unsafePush\<close>

definition unsafePush_prepare ::
  "'c client \<Rightarrow> gotime \<Rightarrow> gotime \<Rightarrow> publish_message \<Rightarrow> headers \<Rightarrow> panic + (go_error + publishing)" where
  "unsafePush_prepare clnt now1 now2 msg contextHeaders =
     (if \<not> isReady clnt then Inr (Inl (Errorf ''%w %s'' [queueName clnt] [Sentinel ErrQueueConnectionClosed]))
      else
        (let pub = \<lparr>pub_DeliveryMode = Persistent,
               pub_ContentType = (if msg_ContentType msg = [] then DefaultContentType else msg_ContentType msg),
               pub_Body = msg_Body msg, pub_Timestamp = now1,
               pub_Headers = mapToAMQPTable contextHeaders, pub_Priority = 0\<rparr>;
             prio = (case msg_Priority msg of
                 None \<Rightarrow> Inr pub
               | Some p \<Rightarrow>
                   if maxPublishMessagePriority < p then
                     Inl (Errorf ''%w: %d'' [append_int (uint p) 1] [Sentinel ErrInvalidPriority])
                   else Inr (pub\<lparr>pub_Priority := p\<rparr>))
         in case prio of
              Inl err \<Rightarrow> Inr (Inl err)
            | Inr pub \<Rightarrow>
                (case retry clnt of
                   None \<Rightarrow> Inr (Inr pub)
                 | Some r \<Rightarrow>
                     (let budget = (case msg_MaxRetryDuration msg of Some m \<Rightarrow> m | None \<Rightarrow> MaxDuration r)
                      in case gm_set ''expired'' (HString (expired_stamp now2 budget)) (pub_Headers pub) of
                           Inl p \<Rightarrow> Inl p
                         | Inr h \<Rightarrow> Inr (Inr (pub\<lparr>pub_Headers := h\<rparr>))))))"

definition unsafePush_call :: "'c client \<Rightarrow> publishing \<Rightarrow> publish_call" where
  "unsafePush_call clnt pub =
     \<lparr>call_Timeout = maxPushProcessingTime, call_Exchange = [], call_Key = queueName clnt,
      call_Mandatory = True, call_Immediate = False, call_Publishing = pub\<rparr>"

text \<open>A method call on a nil \<open>*amqp.Channel\<close> panics.\<close>

definition unsafePush_send ::
  "'c client \<Rightarrow> publishing \<Rightarrow> (publish_call \<Rightarrow> go_error option) \<Rightarrow> panic + go_error option" where
  "unsafePush_send clnt pub library =
     (case ch clnt of
        None \<Rightarrow> Inl NilChannel
      | Some _ \<Rightarrow>
          (case library (unsafePush_call clnt pub) of
             None \<Rightarrow> Inr None
           | Some err \<Rightarrow> Inr (Some (Errorf ''%w %s: %w'' [queueName clnt] [Sentinel ErrPublishFailed, err]))))"

text \<open>The whole operation, when no other goroutine interferes.\<close>

definition unsafePush ::
  "'c client \<Rightarrow> gotime \<Rightarrow> gotime \<Rightarrow> publish_message \<Rightarrow> headers \<Rightarrow> (publish_call \<Rightarrow> go_error option) \<Rightarrow>
     panic + go_error option" where
  "unsafePush clnt now1 now2 msg contextHeaders library =
     (case unsafePush_prepare clnt now1 now2 msg contextHeaders of
        Inl p \<Rightarrow> Inl p
      | Inr (Inl err) \<Rightarrow> Inr (Some err)
      | Inr (Inr pub) \<Rightarrow> unsafePush_send clnt pub library)"

section \<open>The waits\<close>

text \<open>
  The results \<open>WaitReady\<close>, \<open>waitPublishConfirm\<close> and \<open>waitBeforePushRetry\<close> may return at
  a moment when the caller's context has error \<open>ctxErr\<close> (none while it is live). With no
  result they block. \<open>confirm\<close> is what a receive from \<open>notifyConfirm\<close> would give.
\<close>

record confirmation =
  DeliveryTag :: nat \<comment> \<open>uint64; logged, never compared\<close>
  confirmAck :: bool

definition WaitReady :: "'c client \<Rightarrow> ctx_error option \<Rightarrow> go_error option list" where
  "WaitReady clnt ctxErr =
     select
       [(ctxErr \<noteq> None, Some (Errorf ''context canceled while waiting for client %s readiness: %w''
           [queueName clnt] (map CtxErr (case ctxErr of Some c \<Rightarrow> [c] | None \<Rightarrow> [])))),
        (done_closed clnt, Some (Errorf ''%w %s'' [queueName clnt] [Sentinel ErrClientClosedBeforeReady])),
        (ready_closed clnt, None)]"

definition confirm_result :: "'c client \<Rightarrow> confirmation \<Rightarrow> go_error option" where
  "confirm_result clnt confirm =
     (if confirmAck confirm then None
      else Some (Errorf ''%w %q'' [queueName clnt] [Sentinel ErrPublishNack]))"

definition waitPublishConfirm :: "'c client \<Rightarrow> ctx_error option \<Rightarrow> confirmation option \<Rightarrow> go_error option list" where
  "waitPublishConfirm clnt ctxErr confirm =
     select
       [(done_closed clnt, Some (Errorf ''%w %q'' [queueName clnt] [Sentinel ErrDoneSignalBeforeAck])),
        (ctxErr \<noteq> None, Some (Errorf ''%w %q'' [queueName clnt] [Sentinel ErrContextCanceledBeforeAck])),
        (confirm \<noteq> None, case confirm of Some c \<Rightarrow> confirm_result clnt c | None \<Rightarrow> None)]"

definition waitBeforePushRetry :: "'c client \<Rightarrow> ctx_error option \<Rightarrow> bool \<Rightarrow> go_error option list" where
  "waitBeforePushRetry clnt ctxErr timer =
     select
       [(done_closed clnt, Some (Errorf ''%w %q'' [queueName clnt] [Sentinel ErrDoneSignalBeforeAck])),
        (ctxErr \<noteq> None, Some (Errorf ''%w %q'' [queueName clnt] [Sentinel ErrContextCanceledBeforeAck])),
        (timer, None)]"

section \<open>Returned messages\<close>

text \<open>
  \<open>logReturnedMessages\<close> ranges over the channel of messages the broker returned: what it
  logs for the messages received until the channel is closed.
\<close>

record amqp_return =
  ReplyCode :: "16 word"
  ReplyText :: string
  Exchange :: string
  RoutingKey :: string

definition logReturnedMessages :: "'c client \<Rightarrow> amqp_return list \<Rightarrow> 'c effect list" where
  "logReturnedMessages clnt notifyReturn =
     map (\<lambda>ret. Log Error
       (''message returned by broker (queue/routing unavailable): '' @
        ''queue='' @ queueName clnt @
        '', replyCode='' @ append_int (uint (ReplyCode ret)) 1 @
        '', replyText='' @ ReplyText ret @
        '', exchange='' @ Exchange ret @
        '', routingKey='' @ RoutingKey ret) []) notifyReturn"

section \<open>Lemmas\<close>

lemma prepare_cases:
  assumes "unsafePush_prepare clnt now1 now2 msg h = Inr (Inr pub)"
  shows "isReady clnt" "pub_Body pub = msg_Body msg" "pub_Timestamp pub = now1" "pub_DeliveryMode pub = Persistent"
    "pub_ContentType pub \<noteq> []"
    "pub_Priority pub = (case msg_Priority msg of None \<Rightarrow> 0 | Some p \<Rightarrow> p)" "pub_Priority pub \<le> 9"
    "\<forall>k. k \<noteq> ''expired'' \<longrightarrow> gm_get (pub_Headers pub) k = gm_get h k"
  using assms
  by (auto simp: unsafePush_prepare_def Let_def DefaultContentType_def maxPublishMessagePriority_def to_table.copy_get
      not_less split: if_splits option.splits sum.splits dest!: gm_set_Inr)

lemma prepare_expired:
  assumes "unsafePush_prepare clnt now1 now2 msg h = Inr (Inr pub)"
  shows "gm_get (pub_Headers pub) ''expired'' =
    (case retry clnt of
       None \<Rightarrow> gm_get h ''expired''
     | Some r \<Rightarrow> Some (HString (expired_stamp now2
         (case msg_MaxRetryDuration msg of Some m \<Rightarrow> m | None \<Rightarrow> MaxDuration r))))"
  using assms
  by (auto simp: unsafePush_prepare_def Let_def to_table.copy_get
      split: if_splits option.splits sum.splits dest!: gm_set_Inr)

text \<open>The copy made by \<open>mapToAMQPTable\<close> is what keeps a nil map from the builder harmless.\<close>

lemma prepare_no_panic: "unsafePush_prepare clnt now1 now2 msg h \<noteq> Inl p"
  using to_table.copy_not_nil [of h]
  by (auto simp: unsafePush_prepare_def Let_def gm_set_Inl split: option.splits sum.splits if_splits)

lemma prepare_invalid_priority:
  "msg_Priority msg = Some p \<Longrightarrow> maxPublishMessagePriority < p \<Longrightarrow>
     unsafePush_prepare clnt now1 now2 msg h =
       Inr (Inl (if isReady clnt then Errorf ''%w: %d'' [append_int (uint p) 1] [Sentinel ErrInvalidPriority]
                 else Errorf ''%w %s'' [queueName clnt] [Sentinel ErrQueueConnectionClosed]))"
  by (simp add: unsafePush_prepare_def Let_def)

section \<open>Properties\<close>

text \<open>
  What \<open>unsafePush\<close> sends. Whenever it calls the library, the message is persistent,
  mandatory, routed by the default exchange to the client's queue, carries the caller's body,
  a content type that is never empty and a priority of at most 9, and keeps every header the
  builder gave; in retry mode its \<open>expired\<close> header is the stamp of the message's own budget
  or else of the queue's. It never panics on a ready client, whatever map the builder returned,
  nil included.
\<close>

theorem unsafePush_sends:
  assumes "ch clnt = Some c"
  shows "(\<exists>r. unsafePush clnt now1 now2 msg h library = Inr r) \<and>
    (\<forall>pub. unsafePush_prepare clnt now1 now2 msg h = Inr (Inr pub) \<longrightarrow>
      call_Exchange (unsafePush_call clnt pub) = [] \<and> call_Key (unsafePush_call clnt pub) = queueName clnt \<and>
      call_Mandatory (unsafePush_call clnt pub) \<and>
      pub_DeliveryMode pub = Persistent \<and> pub_Body pub = msg_Body msg \<and> pub_ContentType pub \<noteq> [] \<and>
      pub_Priority pub \<le> 9 \<and>
      (\<forall>k. k \<noteq> ''expired'' \<longrightarrow> gm_get (pub_Headers pub) k = gm_get h k) \<and>
      (\<forall>r. retry clnt = Some r \<longrightarrow>
         gm_get (pub_Headers pub) ''expired'' = Some (HString (expired_stamp now2
           (case msg_MaxRetryDuration msg of Some m \<Rightarrow> m | None \<Rightarrow> MaxDuration r)))))"
proof (intro conjI allI impI)
  show "\<exists>r. unsafePush clnt now1 now2 msg h library = Inr r"
    using prepare_no_panic [of clnt now1 now2 msg h] assms
    by (auto simp: unsafePush_def unsafePush_send_def split: sum.splits option.splits)
qed (auto simp: unsafePush_call_def prepare_cases(2,4,5,7,8) prepare_expired)

definition sample_message :: publish_message where
  "sample_message = \<lparr>msg_Body = [1, 2], msg_ContentType = [], msg_MaxRetryDuration = None, msg_Priority = Some 3\<rparr>"

definition ready_client :: "nat client" where
  "ready_client = sample_client\<lparr>ch := Some 1, isReady := True, ready_closed := True\<rparr>"

theorem unsafePush_sends_witness:
  "\<exists>pub. unsafePush_prepare ready_client (Time 0) (Time 0) sample_message None = Inr (Inr pub) \<and>
     pub_ContentType pub \<noteq> [] \<and> pub_Priority pub \<le> 9 \<and>
     gm_get (pub_Headers pub) ''expired'' = Some (HString (expired_stamp (Time 0) (3600 * second)))"
proof -
  obtain pub where p: "unsafePush_prepare ready_client (Time 0) (Time 0) sample_message None = Inr (Inr pub)"
    by (simp add: unsafePush_prepare_def ready_client_def sample_client_def sample_message_def Let_def
        maxPublishMessagePriority_def mapToAMQPTable_def gm_make_def gm_set_def)
  have "ch ready_client = Some 1" "retry ready_client = Some \<lparr>Delay = 60 * second, MaxDuration = 3600 * second\<rparr>"
    by (simp_all add: ready_client_def sample_client_def)
  then show ?thesis
    using unsafePush_sends [of ready_client 1 "Time 0" "Time 0" sample_message None "\<lambda>_. None"] p
    by (auto simp: sample_message_def)
qed

lemma WaitReady_results:
  "r \<in> set (WaitReady clnt ctxErr) \<longleftrightarrow>
     (r = None \<and> ready_closed clnt) \<or>
     (done_closed clnt \<and> r = Some (Errorf ''%w %s'' [queueName clnt] [Sentinel ErrClientClosedBeforeReady])) \<or>
     (\<exists>c. ctxErr = Some c \<and> r = Some (Errorf ''context canceled while waiting for client %s readiness: %w''
        [queueName clnt] [CtxErr c]))"
  by (cases ctxErr) (auto simp: WaitReady_def set_select)

lemma waitPublishConfirm_results:
  "r \<in> set (waitPublishConfirm clnt ctxErr confirm) \<longleftrightarrow>
     (done_closed clnt \<and> r = Some (Errorf ''%w %q'' [queueName clnt] [Sentinel ErrDoneSignalBeforeAck])) \<or>
     (ctxErr \<noteq> None \<and> r = Some (Errorf ''%w %q'' [queueName clnt] [Sentinel ErrContextCanceledBeforeAck])) \<or>
     (\<exists>c. confirm = Some c \<and> r = confirm_result clnt c)"
  by (cases confirm) (auto simp: waitPublishConfirm_def set_select)

lemma waitBeforePushRetry_results:
  "r \<in> set (waitBeforePushRetry clnt ctxErr timer) \<longleftrightarrow>
     (done_closed clnt \<and> r = Some (Errorf ''%w %q'' [queueName clnt] [Sentinel ErrDoneSignalBeforeAck])) \<or>
     (ctxErr \<noteq> None \<and> r = Some (Errorf ''%w %q'' [queueName clnt] [Sentinel ErrContextCanceledBeforeAck])) \<or>
     (timer \<and> r = None)"
  by (auto simp: waitBeforePushRetry_def set_select)

text \<open>
  The waits of a publish are prompt and honest: each returns at once when the client is
  closed or the caller's context is done, whatever else is pending; the confirm wait reports
  success only on a received positive confirm, and the ready wait only on a client that became
  ready.
\<close>

theorem push_waits:
  "(done_closed clnt \<or> ctxErr \<noteq> None \<longrightarrow>
      WaitReady clnt ctxErr \<noteq> [] \<and> waitPublishConfirm clnt ctxErr confirm \<noteq> [] \<and>
      waitBeforePushRetry clnt ctxErr timer \<noteq> []) \<and>
   (None \<in> set (waitPublishConfirm clnt ctxErr confirm) \<longleftrightarrow> (\<exists>c. confirm = Some c \<and> confirmAck c)) \<and>
   (None \<in> set (WaitReady clnt ctxErr) \<longleftrightarrow> ready_closed clnt)"
proof (intro conjI impI)
  show "None \<in> set (waitPublishConfirm clnt ctxErr confirm) \<longleftrightarrow> (\<exists>c. confirm = Some c \<and> confirmAck c)"
    by (auto simp: waitPublishConfirm_results confirm_result_def)
  show "None \<in> set (WaitReady clnt ctxErr) \<longleftrightarrow> ready_closed clnt"
    by (auto simp: WaitReady_results)
qed (auto simp: select_blocks WaitReady_def waitPublishConfirm_def waitBeforePushRetry_def)

theorem push_waits_witness:
  "WaitReady (sample_client\<lparr>done_closed := True\<rparr>) None \<noteq> [] \<and>
   None \<in> set (waitPublishConfirm sample_client (Some Canceled) (Some \<lparr>DeliveryTag = 1, confirmAck = True\<rparr>))"
  using push_waits [of "sample_client\<lparr>done_closed := True\<rparr>" None None True]
    push_waits [of sample_client "Some Canceled" "Some \<lparr>DeliveryTag = 1, confirmAck = True\<rparr>" True]
  by simp

end
