(* ===== verification/Machine.thy ===== *)
theory Machine
  imports Publish
begin

text \<open>
  One client with its goroutines, at the granularity at which they can interfere: the
  reconnect loop (\<open>handleReconnect\<close>, \<open>connect\<close>, \<open>handleReInit\<close>, \<open>init\<close>), any
  number of callers of \<open>push\<close>, one caller of \<open>close\<close>, and the environment (the broker, the
  network, the callers' contexts). Each goroutine has a program counter, each atomic step of
  its code is a rule of its step relation, and \<open>machine_step\<close> interleaves them.

  A \<open>select\<close> picks any branch that is open when it is taken. (A goroutine already parked in
  a \<open>select\<close> is woken by the first event; the relation lets it pick a later one too, so it
  has every run of the code and a few more.)
\<close>

section \<open>State\<close>

datatype rpc =
    RUnstarted
  | RTop \<comment> \<open>top of the loop of \<open>handleReconnect\<close>\<close>
  | RDial
  | RDialWait
  | RInitTop conn_id \<comment> \<open>top of the loop of \<open>handleReInit\<close>\<close>
  | ROpen conn_id \<comment> \<open>\<open>conn.Channel\<close> and \<open>Confirm\<close>\<close>
  | RAssign conn_id chan_id \<comment> \<open>\<open>clnt.ch\<close> assigned, notifications not yet\<close>
  | RDeclare conn_id chan_id
  | RReady conn_id
  | RCloseReady conn_id
  | RInitFailed conn_id
  | RWait conn_id
  | RDone

datatype ppc =
    PIdle
  | PWaitReady
  | PLock headers \<comment> \<open>\<open>pushMu.Lock\<close>\<close>
  | PPrepare headers
  | PSend headers publishing
  | PEnterConfirm headers chan_id \<comment> \<open>published on this channel\<close>
  | PConfirm headers "chan_id option" \<comment> \<open>in the \<open>select\<close>, receiving from this \<open>notifyConfirm\<close>\<close>
  | PUnlock headers "go_error option"
  | PRetryWait headers
  | PReturned "go_error option"
  | PPanicked panic

datatype cpc =
    CIdle
  | CStore0
  | CCloseDone
  | CCloseChan
  | CCloseConn "go_error option"
  | CClosed "go_error option"

text \<open>
  \<open>w_sent c\<close> lists the callers whose messages the broker got on channel \<open>c\<close>, in order, so
  its k-th entry has delivery tag k; \<open>w_acked c\<close> the broker's verdicts so far, in the same
  order (the library confirms in order); \<open>w_confirms c\<close> those not yet received from the
  notification channel. \<open>w_strayed\<close> is a history variable: some caller sent a message and then
  did not wait for its confirm on the channel it was sent on.
\<close>

record 'c world =
  w_clnt :: "'c client"
  w_rpc :: rpc
  w_push :: "nat \<Rightarrow> ppc"
  w_cpc :: cpc
  w_mutex :: "nat option"
  w_calls :: "nat \<Rightarrow> 'c \<times> publish_message"
  w_ctxErr :: "nat \<Rightarrow> ctx_error option"
  w_connOpen :: "conn_id \<Rightarrow> bool"
  w_chanOpen :: "chan_id \<Rightarrow> bool"
  w_next :: nat
  w_sent :: "chan_id \<Rightarrow> nat list"
  w_acked :: "chan_id \<Rightarrow> bool list"
  w_confirms :: "chan_id \<Rightarrow> confirmation list"
  w_strayed :: bool

definition machine_start :: "'c client \<Rightarrow> (nat \<Rightarrow> 'c \<times> publish_message) \<Rightarrow> 'c world" where
  "machine_start c calls =
     \<lparr>w_clnt = c, w_rpc = RUnstarted, w_push = (\<lambda>_. PIdle), w_cpc = CIdle, w_mutex = None,
      w_calls = calls, w_ctxErr = (\<lambda>_. None), w_connOpen = (\<lambda>_. False), w_chanOpen = (\<lambda>_. False),
      w_next = 0, w_sent = (\<lambda>_. []), w_acked = (\<lambda>_. []), w_confirms = (\<lambda>_. []), w_strayed = False\<rparr>"

text \<open>A publisher's client, as \<open>newQueueStore\<close> makes it, before any goroutine runs.\<close>

definition publisher_start ::
  "queue_name \<Rightarrow> queue_item \<Rightarrow> config \<Rightarrow> 'c options \<Rightarrow> (nat \<Rightarrow> 'c \<times> publish_message) \<Rightarrow> 'c world" where
  "publisher_start name item conf opts calls = machine_start (newPublisherClient name item conf opts) calls"

abbreviation at_r :: "'c world \<Rightarrow> rpc \<Rightarrow> 'c world" where
  "at_r w pc \<equiv> w\<lparr>w_rpc := pc\<rparr>"

abbreviation at_p :: "'c world \<Rightarrow> nat \<Rightarrow> ppc \<Rightarrow> 'c world" where
  "at_p w i pc \<equiv> w\<lparr>w_push := (w_push w)(i := pc)\<rparr>"

abbreviation set_clnt :: "'c world \<Rightarrow> 'c client \<Rightarrow> 'c world" where
  "set_clnt w c \<equiv> w\<lparr>w_clnt := c\<rparr>"

section \<open>The reconnect goroutine\<close>

datatype r_label =
    RStore0 | RDialOk | RDialFail | RDialDone | RDialTimer
  | RInitStore0 | ROpenOk | ROpenFail | RNotify | RDeclareOk | RDeclareFail | RStore1 | RReadyClosed
  | RFailedDone | RFailedConn | RFailedTimer
  | RWaitDone | RWaitConn | RWaitChan

definition conn_closed_notified :: "'c world \<Rightarrow> bool" where
  "conn_closed_notified w \<longleftrightarrow> (\<exists>c. notifyConnClose (w_clnt w) = Some c \<and> \<not> w_connOpen w c)"

definition chan_closed_notified :: "'c world \<Rightarrow> bool" where
  "chan_closed_notified w \<longleftrightarrow> (\<exists>c. notifyChanClose (w_clnt w) = Some c \<and> \<not> w_chanOpen w c)"

inductive reconnect_step :: "'c world \<Rightarrow> r_label \<Rightarrow> 'c world \<Rightarrow> bool" where
  r_store0:
  "w_rpc w = RTop \<Longrightarrow>
     reconnect_step w RStore0 (at_r (set_clnt w ((w_clnt w)\<lparr>isReady := False\<rparr>)) RDial)"
| r_dial_ok:
  "w_rpc w = RDial \<Longrightarrow> n = w_next w \<Longrightarrow>
     reconnect_step w RDialOk
       (w\<lparr>w_rpc := RInitTop n, w_next := Suc n, w_connOpen := (w_connOpen w)(n := True),
          w_clnt := (w_clnt w)\<lparr>conn := Some n, notifyConnClose := Some n\<rparr>\<rparr>)"
| r_dial_fail:
  "w_rpc w = RDial \<Longrightarrow> reconnect_step w RDialFail (at_r w RDialWait)"
| r_dial_done:
  "w_rpc w = RDialWait \<Longrightarrow> done_closed (w_clnt w) \<Longrightarrow> reconnect_step w RDialDone (at_r w RDone)"
| r_dial_timer:
  "w_rpc w = RDialWait \<Longrightarrow> reconnect_step w RDialTimer (at_r w RTop)"
| r_init_store0:
  "w_rpc w = RInitTop c \<Longrightarrow>
     reconnect_step w RInitStore0 (at_r (set_clnt w ((w_clnt w)\<lparr>isReady := False\<rparr>)) (ROpen c))"
| r_open_ok:
  "w_rpc w = ROpen c \<Longrightarrow> w_connOpen w c \<Longrightarrow> n = w_next w \<Longrightarrow>
     reconnect_step w ROpenOk
       (w\<lparr>w_rpc := RAssign c n, w_next := Suc n, w_chanOpen := (w_chanOpen w)(n := True),
          w_clnt := (w_clnt w)\<lparr>ch := Some n\<rparr>\<rparr>)"
| r_open_fail:
  "w_rpc w = ROpen c \<Longrightarrow> reconnect_step w ROpenFail (at_r w (RInitFailed c))"
| r_notify:
  "w_rpc w = RAssign c n \<Longrightarrow>
     reconnect_step w RNotify
       (at_r (set_clnt w ((w_clnt w)\<lparr>notifyChanClose := Some n, notifyConfirm := Some n\<rparr>)) (RDeclare c n))"
| r_declare_ok:
  "w_rpc w = RDeclare c n \<Longrightarrow> reconnect_step w RDeclareOk (at_r w (RReady c))"
| r_declare_fail:
  "w_rpc w = RDeclare c n \<Longrightarrow>
     reconnect_step w RDeclareFail
       (w\<lparr>w_rpc := RInitFailed c, w_chanOpen := (w_chanOpen w)(n := False),
          w_clnt := (w_clnt w)\<lparr>ch := None\<rparr>\<rparr>)"
| r_store1:
  "w_rpc w = RReady c \<Longrightarrow>
     reconnect_step w RStore1 (at_r (set_clnt w ((w_clnt w)\<lparr>isReady := True\<rparr>)) (RCloseReady c))"
| r_ready_closed:
  "w_rpc w = RCloseReady c \<Longrightarrow>
     reconnect_step w RReadyClosed (at_r (set_clnt w ((w_clnt w)\<lparr>ready_closed := True\<rparr>)) (RWait c))"
| r_failed_done:
  "w_rpc w = RInitFailed c \<Longrightarrow> done_closed (w_clnt w) \<Longrightarrow> reconnect_step w RFailedDone (at_r w RDone)"
| r_failed_conn:
  "w_rpc w = RInitFailed c \<Longrightarrow> conn_closed_notified w \<Longrightarrow> reconnect_step w RFailedConn (at_r w RTop)"
| r_failed_timer:
  "w_rpc w = RInitFailed c \<Longrightarrow> reconnect_step w RFailedTimer (at_r w (RInitTop c))"
| r_wait_done:
  "w_rpc w = RWait c \<Longrightarrow> done_closed (w_clnt w) \<Longrightarrow> reconnect_step w RWaitDone (at_r w RDone)"
| r_wait_conn:
  "w_rpc w = RWait c \<Longrightarrow> conn_closed_notified w \<Longrightarrow> reconnect_step w RWaitConn (at_r w RTop)"
| r_wait_chan:
  "w_rpc w = RWait c \<Longrightarrow> chan_closed_notified w \<Longrightarrow> reconnect_step w RWaitChan (at_r w (RInitTop c))"

section \<open>Publishers\<close>

datatype p_label =
    PCall | PWaited "go_error option" | PLocked | PPrepared gotime gotime | PSent "go_error option"
  | PEntered | PLeft "go_error option" | PReceived | PUnlocked | PRetried "go_error option"

text \<open>
  What a receive from a notification channel gives: the oldest confirm, the zero value once
  the channel is closed and drained, nothing (it blocks) otherwise or on a nil channel.
\<close>

definition receive :: "'c world \<Rightarrow> chan_id option \<Rightarrow> confirmation option" where
  "receive w n =
     (case n of
        None \<Rightarrow> None
      | Some c \<Rightarrow>
          (case w_confirms w c of
             x # _ \<Rightarrow> Some x
           | [] \<Rightarrow> if w_chanOpen w c then None else Some \<lparr>DeliveryTag = 0, confirmAck = False\<rparr>))"

definition drop_received :: "'c world \<Rightarrow> chan_id option \<Rightarrow> chan_id \<Rightarrow> confirmation list" where
  "drop_received w n =
     (case n of None \<Rightarrow> w_confirms w | Some c \<Rightarrow> (w_confirms w)(c := tl (w_confirms w c)))"

text \<open>\<open>push\<close> after \<open>WaitReady\<close>: an error returns; else the headers are built, once.\<close>

definition after_WaitReady :: "'c client \<Rightarrow> 'c \<Rightarrow> go_error option \<Rightarrow> ppc" where
  "after_WaitReady clnt ctx r =
     (case r of
        Some err \<Rightarrow> PReturned (Some err)
      | None \<Rightarrow>
          (case PublishHeadersBuilder clnt of
             None \<Rightarrow> PPanicked NilFunc
           | Some build \<Rightarrow> (case build ctx of Returned h \<Rightarrow> PLock h | Panicked p \<Rightarrow> PPanicked (UserPanic p))))"

inductive push_step :: "'c world \<Rightarrow> nat \<times> p_label \<Rightarrow> 'c world \<Rightarrow> bool" where
  p_call:
  "w_push w i = PIdle \<Longrightarrow>
     push_step w (i, PCall)
       ((at_p w i PWaitReady)\<lparr>w_rpc := (if startOnce (w_clnt w) then w_rpc w else RTop),
          w_clnt := (w_clnt w)\<lparr>startOnce := True\<rparr>\<rparr>)"
| p_waited:
  "w_push w i = PWaitReady \<Longrightarrow> r \<in> set (WaitReady (w_clnt w) (w_ctxErr w i)) \<Longrightarrow>
     push_step w (i, PWaited r) (at_p w i (after_WaitReady (w_clnt w) (fst (w_calls w i)) r))"
| p_locked:
  "w_push w i = PLock h \<Longrightarrow> w_mutex w = None \<Longrightarrow>
     push_step w (i, PLocked) ((at_p w i (PPrepare h))\<lparr>w_mutex := Some i\<rparr>)"
| p_prepared:
  "w_push w i = PPrepare h \<Longrightarrow>
     push_step w (i, PPrepared now1 now2)
       (at_p w i (case unsafePush_prepare (w_clnt w) now1 now2 (snd (w_calls w i)) h of
            Inl p \<Rightarrow> PPanicked p
          | Inr (Inl err) \<Rightarrow> PUnlock h (Some err)
          | Inr (Inr pub) \<Rightarrow> PSend h pub))"
| p_send_nil:
  "w_push w i = PSend h pub \<Longrightarrow> unsafePush_send (w_clnt w) pub (\<lambda>_. answer) = Inl p \<Longrightarrow>
     push_step w (i, PSent answer) (at_p w i (PPanicked p))"
| p_send_fail:
  "w_push w i = PSend h pub \<Longrightarrow> unsafePush_send (w_clnt w) pub (\<lambda>_. answer) = Inr (Some err) \<Longrightarrow>
     push_step w (i, PSent answer) (at_p w i (PUnlock h (Some err)))"
| p_send_ok:
  "w_push w i = PSend h pub \<Longrightarrow> unsafePush_send (w_clnt w) pub (\<lambda>_. answer) = Inr None \<Longrightarrow>
     ch (w_clnt w) = Some c \<Longrightarrow> w_chanOpen w c \<Longrightarrow>
     push_step w (i, PSent answer)
       ((at_p w i (PEnterConfirm h c))\<lparr>w_sent := (w_sent w)(c := w_sent w c @ [i])\<rparr>)"
| p_entered:
  "w_push w i = PEnterConfirm h c \<Longrightarrow> n = notifyConfirm (w_clnt w) \<Longrightarrow>
     push_step w (i, PEntered)
       ((at_p w i (PConfirm h n))\<lparr>w_strayed := (w_strayed w \<or> n \<noteq> Some c)\<rparr>)"
| p_left:
  "w_push w i = PConfirm h n \<Longrightarrow> r \<in> set (waitPublishConfirm (w_clnt w) (w_ctxErr w i) None) \<Longrightarrow>
     push_step w (i, PLeft r) ((at_p w i (PUnlock h r))\<lparr>w_strayed := True\<rparr>)"
| p_received:
  "w_push w i = PConfirm h n \<Longrightarrow> receive w n = Some x \<Longrightarrow>
     push_step w (i, PReceived)
       ((at_p w i (PUnlock h (confirm_result (w_clnt w) x)))\<lparr>w_confirms := drop_received w n\<rparr>)"
| p_unlocked:
  "w_push w i = PUnlock h r \<Longrightarrow>
     push_step w (i, PUnlocked)
       ((at_p w i (if r = None then PReturned None else PRetryWait h))\<lparr>w_mutex := None\<rparr>)"
| p_retried:
  "w_push w i = PRetryWait h \<Longrightarrow> r \<in> set (waitBeforePushRetry (w_clnt w) (w_ctxErr w i) True) \<Longrightarrow>
     push_step w (i, PRetried r) (at_p w i (if r = None then PLock h else PReturned r))"

section \<open>Close\<close>

datatype c_label = CEnter | CStored | CDoneClosed | CChanClosed "go_error option" | CConnClosed "go_error option"

definition close_chan_error :: "'c client \<Rightarrow> go_error option \<Rightarrow> go_error option" where
  "close_chan_error clnt answer =
     map_option (\<lambda>e. Errorf ''%w %s: %w'' [queueName clnt] [Sentinel ErrClosingQueueChannel, e]) answer"

definition close_conn_error :: "'c client \<Rightarrow> go_error option \<Rightarrow> go_error option \<Rightarrow> go_error option" where
  "close_conn_error clnt closeErr answer =
     (case closeErr of
        Some e \<Rightarrow> Some e
      | None \<Rightarrow> map_option (\<lambda>e. Errorf ''%w %s: %w'' [queueName clnt] [Sentinel ErrClosingQueueConnection, e]) answer)"

inductive close_step :: "'c world \<Rightarrow> c_label \<Rightarrow> 'c world \<Rightarrow> bool" where
  c_enter:
  "w_cpc w = CIdle \<Longrightarrow>
     close_step w CEnter (w\<lparr>w_cpc := CStore0, w_clnt := (w_clnt w)\<lparr>closeOnce := True\<rparr>\<rparr>)"
| c_stored:
  "w_cpc w = CStore0 \<Longrightarrow>
     close_step w CStored (w\<lparr>w_cpc := CCloseDone, w_clnt := (w_clnt w)\<lparr>isReady := False\<rparr>\<rparr>)"
| c_done_closed:
  "w_cpc w = CCloseDone \<Longrightarrow>
     close_step w CDoneClosed (w\<lparr>w_cpc := CCloseChan, w_clnt := (w_clnt w)\<lparr>done_closed := True\<rparr>\<rparr>)"
| c_chan_nil:
  "w_cpc w = CCloseChan \<Longrightarrow> ch (w_clnt w) = None \<Longrightarrow>
     close_step w (CChanClosed answer) (w\<lparr>w_cpc := CCloseConn None\<rparr>)"
| c_chan_closed:
  "w_cpc w = CCloseChan \<Longrightarrow> ch (w_clnt w) = Some c \<Longrightarrow>
     close_step w (CChanClosed answer)
       (w\<lparr>w_cpc := CCloseConn (close_chan_error (w_clnt w) answer), w_chanOpen := (w_chanOpen w)(c := False)\<rparr>)"
| c_conn_nil:
  "w_cpc w = CCloseConn e \<Longrightarrow> conn (w_clnt w) = None \<Longrightarrow>
     close_step w (CConnClosed answer) (w\<lparr>w_cpc := CClosed e\<rparr>)"
| c_conn_closed:
  "w_cpc w = CCloseConn e \<Longrightarrow> conn (w_clnt w) = Some c \<Longrightarrow>
     close_step w (CConnClosed answer)
       (w\<lparr>w_cpc := CClosed (close_conn_error (w_clnt w) e answer), w_connOpen := (w_connOpen w)(c := False)\<rparr>)"

section \<open>The environment\<close>

datatype e_label = EConnDrop conn_id | EChanDrop chan_id | EConfirm chan_id bool | ECancel nat ctx_error

inductive env_step :: "'c world \<Rightarrow> e_label \<Rightarrow> 'c world \<Rightarrow> bool" where
  e_conn_drop:
  "env_step w (EConnDrop c) (w\<lparr>w_connOpen := (w_connOpen w)(c := False)\<rparr>)"
| e_chan_drop:
  "env_step w (EChanDrop c) (w\<lparr>w_chanOpen := (w_chanOpen w)(c := False)\<rparr>)"
| e_confirm:
  "w_chanOpen w c \<Longrightarrow> length (w_acked w c) < length (w_sent w c) \<Longrightarrow>
     env_step w (EConfirm c b)
       (w\<lparr>w_acked := (w_acked w)(c := w_acked w c @ [b]),
          w_confirms := (w_confirms w)(c := w_confirms w c @
             [\<lparr>DeliveryTag = Suc (length (w_acked w c)), confirmAck = b\<rparr>])\<rparr>)"
| e_cancel:
  "w_ctxErr w i = None \<Longrightarrow> env_step w (ECancel i c) (w\<lparr>w_ctxErr := (w_ctxErr w)(i := Some c)\<rparr>)"

section \<open>All together\<close>

datatype label = R r_label | P nat p_label | C c_label | E e_label

inductive machine_step :: "'c world \<Rightarrow> label \<Rightarrow> 'c world \<Rightarrow> bool" where
  m_reconnect: "reconnect_step w l v \<Longrightarrow> machine_step w (R l) v"
| m_push: "push_step w (i, l) v \<Longrightarrow> machine_step w (P i l) v"
| m_close: "close_step w l v \<Longrightarrow> machine_step w (C l) v"
| m_env: "env_step w l v \<Longrightarrow> machine_step w (E l) v"

inductive_simps machine_step_simps:
  "machine_step w (R l) v" "machine_step w (P i p) v" "machine_step w (C cl) v" "machine_step w (E e) v"

inductive_cases machine_stepE: "machine_step w l v"
inductive_cases reconnect_stepE: "reconnect_step w l v"
inductive_cases push_stepE: "push_step w l v"
inductive_cases close_stepE: "close_step w l v"
inductive_cases env_stepE: "env_step w l v"

inductive_simps reconnect_step_simps:
  "reconnect_step w RStore0 v" "reconnect_step w RDialOk v" "reconnect_step w RDialFail v"
  "reconnect_step w RDialDone v" "reconnect_step w RDialTimer v" "reconnect_step w RInitStore0 v"
  "reconnect_step w ROpenOk v" "reconnect_step w ROpenFail v" "reconnect_step w RNotify v"
  "reconnect_step w RDeclareOk v" "reconnect_step w RDeclareFail v" "reconnect_step w RStore1 v"
  "reconnect_step w RReadyClosed v" "reconnect_step w RFailedDone v" "reconnect_step w RFailedConn v"
  "reconnect_step w RFailedTimer v" "reconnect_step w RWaitDone v" "reconnect_step w RWaitConn v"
  "reconnect_step w RWaitChan v"

inductive_simps push_step_simps:
  "push_step w (i, PCall) v" "push_step w (i, PWaited r) v" "push_step w (i, PLocked) v"
  "push_step w (i, PPrepared t u) v" "push_step w (i, PSent a) v" "push_step w (i, PEntered) v"
  "push_step w (i, PLeft r) v" "push_step w (i, PReceived) v" "push_step w (i, PUnlocked) v"
  "push_step w (i, PRetried r) v"

inductive_simps close_step_simps:
  "close_step w CEnter v" "close_step w CStored v" "close_step w CDoneClosed v"
  "close_step w (CChanClosed a) v" "close_step w (CConnClosed a) v"

inductive_simps env_step_simps:
  "env_step w (EConnDrop c) v" "env_step w (EChanDrop c) v" "env_step w (EConfirm c b) v"
  "env_step w (ECancel i x) v"

lemmas step_simps = machine_step_simps reconnect_step_simps push_step_simps close_step_simps env_step_simps

end
