(* ===== verification/Queue.thy ===== *)
theory Queue
  imports Machine
begin

text \<open>
  \<open>queue.go\<close> and \<open>close\<close>, \<open>ensureConnected\<close> of client.go: the store made by \<open>New\<close>, the
  registration of consumers, \<open>Publish\<close> up to the call of \<open>push\<close>, \<open>InitConsumer\<close> and
  \<open>Shutdown\<close>. Clients are shared by pointer, so they live in a heap (a list, an address is
  an index) and every operation takes and returns the whole system. The operations that other
  goroutines can interrupt are compositions of the atomic parts that the machine of Registry
  interleaves.
\<close>

section \<open>State\<close>

text \<open>What an operation starts, calls and logs.\<close>

datatype queue_event =
    GoReconnect addr string
  | GoConsumerLoop addr
  | CloseChannel chan_id
  | CloseConnection conn_id
  | QueueLog log_level string "go_error option"

record 'c system =
  sys_store :: "'c queueStore"
  sys_clients :: "'c client list"
  sys_trace :: "queue_event list"

abbreviation client_at :: "'c system \<Rightarrow> addr \<Rightarrow> 'c client" where
  "client_at s a \<equiv> sys_clients s ! a"

definition emit :: "queue_event list \<Rightarrow> 'c system \<Rightarrow> 'c system" where
  "emit es s = s\<lparr>sys_trace := sys_trace s @ es\<rparr>"

definition alloc :: "'c client \<Rightarrow> 'c system \<Rightarrow> 'c system \<times> addr" where
  "alloc c s = (s\<lparr>sys_clients := sys_clients s @ [c]\<rparr>, length (sys_clients s))"

definition put_client :: "addr \<Rightarrow> 'c client \<Rightarrow> 'c system \<Rightarrow> 'c system" where
  "put_client a c s = s\<lparr>sys_clients := (sys_clients s)[a := c]\<rparr>"

definition upd_store :: "('c queueStore \<Rightarrow> 'c queueStore) \<Rightarrow> 'c system \<Rightarrow> 'c system" where
  "upd_store f s = s\<lparr>sys_store := f (sys_store s)\<rparr>"

definition queue_param :: "'c system \<Rightarrow> queue_name \<Rightarrow> queue_item option" where
  "queue_param s name = gm_get (QueueParams (storeConfig (sys_store s))) name"

text \<open>The index expression \<open>queue.consumers[name]\<close>: nil for a name without consumers.\<close>

definition consumers_of :: "'c system \<Rightarrow> queue_name \<Rightarrow> addr list" where
  "consumers_of s name = (case gm_get (consumers (sys_store s)) name of None \<Rightarrow> [] | Some as \<Rightarrow> as)"

section \<open>New\<close>

definition empty_store :: "config \<Rightarrow> 'c options \<Rightarrow> 'c queueStore" where
  "empty_store conf cfgOpts =
     \<lparr>storeConfig = (if QueueParams conf = None then conf\<lparr>QueueParams := gm_make\<rparr> else conf),
      storeLgr = lgr cfgOpts, failJobHandler = failHandler cfgOpts,
      storePublishHeadersBuilder = publishHeadersBuilder cfgOpts,
      storeConsumeHeadersExtractor = consumeHeadersExtractor cfgOpts,
      publishers = gm_make, consumers = gm_make, consumersStarted = False, inflight = 0\<rparr>"

definition addPublisher :: "config \<Rightarrow> 'c options \<Rightarrow> 'c system \<Rightarrow> queue_name \<times> queue_item \<Rightarrow> 'c system" where
  "addPublisher conf cfgOpts s entry =
     (case entry of (name, param) \<Rightarrow>
        if ConsumerOnly param then s
        else
          (case alloc (newPublisherClient name param conf cfgOpts) s of
             (s, a) \<Rightarrow> upd_store (\<lambda>q. q\<lparr>publishers := gm_put name a (publishers q)\<rparr>) s))"

definition newQueueStore :: "config \<Rightarrow> 'c go_option list \<Rightarrow> go_error + 'c system" where
  "newQueueStore conf opts =
     (let cfgOpts = resolve_options opts in
      case validateConfig conf cfgOpts of
        Some err \<Rightarrow> Inl err
      | None \<Rightarrow>
          Inr (foldl (addPublisher conf cfgOpts)
                 \<lparr>sys_store = empty_store conf cfgOpts, sys_clients = [], sys_trace = []\<rparr>
                 (gm_entries (QueueParams conf))))"

text \<open>\<open>New\<close>: the same value as an interface.\<close>

definition New :: "config \<Rightarrow> 'c go_option list \<Rightarrow> go_error + 'c system" where
  "New conf opts = (case newQueueStore conf opts of Inl err \<Rightarrow> Inl err | Inr store \<Rightarrow> Inr store)"

section \<open>Closing a client\<close>

text \<open>
  \<open>close\<close> when no other goroutine of the client interferes; \<open>answers\<close> is what the library's
  two Close calls return. \<open>closeOnce\<close> makes every later call return nil.
\<close>

definition close ::
  "go_error option \<times> go_error option \<Rightarrow> 'c client \<Rightarrow> 'c client \<times> queue_event list \<times> go_error option" where
  "close answers clnt =
     (if closeOnce clnt then (clnt, [], None)
      else
        (let closed = clnt\<lparr>closeOnce := True, isReady := False, done_closed := True\<rparr>;
             err1 = (if ch clnt = None then None else close_chan_error clnt (fst answers));
             err2 = (if conn clnt = None then err1 else close_conn_error clnt err1 (snd answers))
         in (closed,
             QueueLog Info ''closing mq connection'' None #
               (case ch clnt of None \<Rightarrow> [] | Some c \<Rightarrow> [CloseChannel c]) @
               (case conn clnt of None \<Rightarrow> [] | Some c \<Rightarrow> [CloseConnection c]),
             err2)))"

type_synonym close_answers = "addr \<Rightarrow> go_error option \<times> go_error option"

definition close_at :: "close_answers \<Rightarrow> addr \<Rightarrow> 'c system \<Rightarrow> 'c system \<times> go_error option" where
  "close_at answers a s =
     (case close (answers a) (client_at s a) of (c, es, r) \<Rightarrow> (emit es (put_client a c s), r))"

section \<open>Registering consumers\<close>

definition addConsumerClient ::
  "'c system \<Rightarrow> ctx_id \<Rightarrow> queue_name \<Rightarrow> 'c consumer_handler option \<Rightarrow> 'c system \<times> (go_error + addr)" where
  "addConsumerClient s ctx name cb =
     (case queue_param s name of
        None \<Rightarrow> (s, Inl (Errorf ''%w: %s'' [name] [Sentinel ErrQueueNotFound]))
      | Some param \<Rightarrow>
          (let q = sys_store s;
               clnt = (newClient name param (storeConfig q) (storeLgr q))
                 \<lparr>callback := cb, consumerDone := Some ctx,
                  ConsumeHeadersExtractor := storeConsumeHeadersExtractor q\<rparr>
           in case alloc clnt s of (s, a) \<Rightarrow> (emit [GoReconnect a (URL (storeConfig q))] s, Inr a)))"

text \<open>The loop over \<open>parallelism\<close>: the clients made so far, and the error that ended it.\<close>

fun addConsumerClients ::
  "nat \<Rightarrow> 'c system \<Rightarrow> ctx_id \<Rightarrow> queue_name \<Rightarrow> 'c consumer_handler option \<Rightarrow> addr list \<Rightarrow>
     'c system \<times> addr list \<times> go_error option" where
  "addConsumerClients 0 s ctx name cb clients = (s, clients, None)"
| "addConsumerClients (Suc n) s ctx name cb clients =
     (case addConsumerClient s ctx name cb of
        (s, Inl err) \<Rightarrow> (s, clients, Some err)
      | (s, Inr a) \<Rightarrow> addConsumerClients n s ctx name cb (clients @ [a]))"

text \<open>The deferred function of \<open>AddConsumerN\<close> when it returns an error.\<close>

definition close_all :: "close_answers \<Rightarrow> addr list \<Rightarrow> 'c system \<Rightarrow> 'c system" where
  "close_all answers clients s = foldl (\<lambda>s a. fst (close_at answers a s)) s clients"

definition AddConsumerN_begin ::
  "'c system \<Rightarrow> ctx_id \<Rightarrow> queue_name \<Rightarrow> int \<Rightarrow> 'c consumer_handler option \<Rightarrow>
     'c system \<times> addr list \<times> go_error option" where
  "AddConsumerN_begin s ctx name parallelism cb =
     (if consumersStarted (sys_store s) then (s, [], Some (Sentinel ErrConsumersAlreadyStarted))
      else if queue_param s name = None then (s, [], Some (Errorf ''%w: %s'' [name] [Sentinel ErrQueueNotFound]))
      else
        (let s = (if parallelism \<le> 0 then
                    emit [QueueLog Warn (''parallelism <= 0 for queue '' @ name @ '', using 1'') None] s
                  else s);
             n = (if parallelism \<le> 0 then 1 else nat parallelism);
             s = emit [QueueLog Info (''adding '' @ append_int (int n) 1 @ '' handlers for queue '' @ name) None] s
         in addConsumerClients n s ctx name cb []))"

text \<open>The section under \<open>queue.mu\<close>: check again, then append.\<close>

definition AddConsumerN_commit :: "queue_name \<Rightarrow> addr list \<Rightarrow> 'c system \<Rightarrow> 'c system \<times> go_error option" where
  "AddConsumerN_commit name clients s =
     (if consumersStarted (sys_store s) then (s, Some (Sentinel ErrConsumersAlreadyStarted))
      else
        (upd_store (\<lambda>q. q\<lparr>consumers := gm_put name (consumers_of s name @ clients) (consumers q)\<rparr>) s, None))"

definition AddConsumerN ::
  "close_answers \<Rightarrow> 'c system \<Rightarrow> ctx_id \<Rightarrow> queue_name \<Rightarrow> int \<Rightarrow> 'c consumer_handler option \<Rightarrow>
     'c system \<times> go_error option" where
  "AddConsumerN answers s ctx name parallelism cb =
     (case AddConsumerN_begin s ctx name parallelism cb of
        (s, clients, Some err) \<Rightarrow> (close_all answers clients s, Some err)
      | (s, clients, None) \<Rightarrow>
          (case AddConsumerN_commit name clients s of
             (s, Some err) \<Rightarrow> (close_all answers clients s, Some err)
           | (s, None) \<Rightarrow> (s, None)))"

definition AddConsumer ::
  "close_answers \<Rightarrow> 'c system \<Rightarrow> ctx_id \<Rightarrow> queue_name \<Rightarrow> 'c consumer_handler option \<Rightarrow>
     'c system \<times> go_error option" where
  "AddConsumer answers s ctx name cb = AddConsumerN answers s ctx name 1 cb"

section \<open>Publishing\<close>

definition ensureConnected :: "addr \<Rightarrow> 'c system \<Rightarrow> 'c system" where
  "ensureConnected a s =
     (let clnt = client_at s a in
      if startOnce clnt then s
      else emit [GoReconnect a (brokerURL clnt)] (put_client a (clnt\<lparr>startOnce := True\<rparr>) s))"

text \<open>\<open>Inr a\<close>: it goes on as \<open>push\<close> on the client at \<open>a\<close>.\<close>

definition Publish :: "'c system \<Rightarrow> queue_name \<Rightarrow> 'c system \<times> (go_error + addr)" where
  "Publish s name =
     (case queue_param s name of
        None \<Rightarrow> (s, Inl (Errorf ''%w: %s'' [name] [Sentinel ErrQueueNotFound]))
      | Some param \<Rightarrow>
          if ConsumerOnly param then (s, Inl (Errorf ''%w: %s'' [name] [Sentinel ErrQueueConsumerOnly]))
          else
            (case gm_get (publishers (sys_store s)) name of
               None \<Rightarrow> (s, Inl (Errorf ''%w: %s'' [name] [Sentinel ErrQueueNotFound]))
             | Some a \<Rightarrow> (ensureConnected a s, Inr a)))"

section \<open>Starting consumers\<close>

definition guardConsumerStart :: "'c system \<Rightarrow> ctx_error option \<Rightarrow> go_error option" where
  "guardConsumerStart s ctxErr =
     (if consumersStarted (sys_store s) then Some (Sentinel ErrConsumersAlreadyStarted)
      else map_option (\<lambda>e. Errorf ''%w: %w'' [] [Sentinel ErrContextCanceledOnConsumerStart, CtxErr e]) ctxErr)"

text \<open>A copy of the map with a copy of every slice, and the number of consumers.\<close>

definition snapshotConsumers :: "'c system \<Rightarrow> (queue_name, addr list) gomap \<times> nat" where
  "snapshotConsumers s =
     (Some (gm_entries (consumers (sys_store s))),
      sum_list (map (length \<circ> snd) (gm_entries (consumers (sys_store s)))))"

definition startConsumerWorkers :: "(queue_name, addr list) gomap \<Rightarrow> 'c system \<Rightarrow> 'c system" where
  "startConsumerWorkers cs s = emit (map GoConsumerLoop (concat (map snd (gm_entries cs)))) s"

definition InitConsumer_start ::
  "(queue_name, addr list) gomap \<times> nat \<Rightarrow> 'c system \<Rightarrow> 'c system \<times> go_error option" where
  "InitConsumer_start snapshot s =
     (case snapshot of (cs, count) \<Rightarrow>
        if count = 0 then (s, Some (Sentinel ErrNoConsumersRegistered))
        else if consumersStarted (sys_store s) then (s, Some (Sentinel ErrConsumersAlreadyStarted))
        else (startConsumerWorkers cs (upd_store (\<lambda>q. q\<lparr>consumersStarted := True\<rparr>) s), None))"

definition InitConsumer :: "'c system \<Rightarrow> ctx_error option \<Rightarrow> 'c system \<times> go_error option" where
  "InitConsumer s ctxErr =
     (case guardConsumerStart s ctxErr of
        Some err \<Rightarrow> (s, Some err)
      | None \<Rightarrow> InitConsumer_start (snapshotConsumers s) s)"

section \<open>Shutdown\<close>

definition snapshotClients :: "'c system \<Rightarrow> (queue_name, addr) gomap \<times> (queue_name, addr list) gomap" where
  "snapshotClients s =
     (gm_copy gm_make (publishers (sys_store s)), Some (gm_entries (consumers (sys_store s))))"

text \<open>
  What the context and the library answer during a \<open>Shutdown\<close>: \<open>ctx.Err()\<close> when the turn of
  the client at an address comes, when \<open>waitInflight\<close> is done and at the end; the number of
  deliveries in flight when it waits.
\<close>

record shutdown_env =
  se_ctxAt :: "addr \<Rightarrow> ctx_error option"
  se_answers :: close_answers
  se_inflight :: int
  se_ctxWait :: "ctx_error option"
  se_ctxEnd :: "ctx_error option"

definition closeOneClient ::
  "shutdown_env \<Rightarrow> queue_name \<Rightarrow> nat \<Rightarrow> string \<Rightarrow> addr \<Rightarrow> go_error option \<Rightarrow> 'c system \<Rightarrow>
     'c system \<times> go_error option" where
  "closeOneClient env name idx role a firstErr s =
     (let firstErr = (if firstErr = None then map_option (\<lambda>e. Errorf ''%w'' [] [CtxErr e]) (se_ctxAt env a)
                      else firstErr)
      in case close_at (se_answers env) a s of
           (s, None) \<Rightarrow> (s, firstErr)
         | (s, Some err) \<Rightarrow>
             (case firstErr of
                None \<Rightarrow> (s, Some (Errorf ''error closing %s %s[%d]: %w'' [role, name, append_int (int idx) 1] [err]))
              | Some e \<Rightarrow> (emit [QueueLog Warn (''error closing '' @ role @ '' '' @ name) (Some err)] s, Some e)))"

text \<open>The order of the two loops, each entry with its index and role.\<close>

definition close_order ::
  "(queue_name, addr) gomap \<Rightarrow> (queue_name, addr list) gomap \<Rightarrow> (queue_name \<times> nat \<times> string \<times> addr) list" where
  "close_order ps cs =
     map (\<lambda>(name, a). (name, 0, ''publisher'', a)) (gm_entries ps) @
     concat (map (\<lambda>(name, as). map (\<lambda>(i, a). (name, i, ''consumer'', a)) (enumerate 0 as)) (gm_entries cs))"

definition closeClients ::
  "shutdown_env \<Rightarrow> (queue_name, addr) gomap \<Rightarrow> (queue_name, addr list) gomap \<Rightarrow> 'c system \<Rightarrow>
     'c system \<times> go_error option" where
  "closeClients env ps cs s =
     foldl (\<lambda>(s, firstErr) (name, i, role, a). closeOneClient env name i role a firstErr s) (s, None)
       (close_order ps cs)"

text \<open>The results \<open>waitInflight\<close> may return; none means it waits on.\<close>

definition waitInflight :: "int \<Rightarrow> ctx_error option \<Rightarrow> go_error option list" where
  "waitInflight n ctxErr =
     select ((n = 0, None) #
       (case ctxErr of
          None \<Rightarrow> []
        | Some e \<Rightarrow> [(True, Some (Errorf ''timeout waiting for in-flight message processing: %w'' [] [CtxErr e]))]))"

definition Shutdown_result :: "ctx_error option \<Rightarrow> go_error option \<Rightarrow> go_error option \<Rightarrow> go_error option" where
  "Shutdown_result ctxEnd firstErr waitErr =
     (let firstErr = (if firstErr = None then waitErr else firstErr) in
      case ctxEnd of
        None \<Rightarrow> firstErr
      | Some e \<Rightarrow>
          (case firstErr of
             Some err \<Rightarrow> Some (Errorf ''%w: %w'' [] [CtxErr e, err])
           | None \<Rightarrow> Some (Errorf ''%w'' [] [CtxErr e])))"

definition Shutdown :: "shutdown_env \<Rightarrow> 'c system \<Rightarrow> 'c system \<times> go_error option list" where
  "Shutdown env s =
     (case snapshotClients s of (ps, cs) \<Rightarrow>
        (case closeClients env ps cs s of (s, firstErr) \<Rightarrow>
           (s, map (Shutdown_result (se_ctxEnd env) firstErr) (waitInflight (se_inflight env) (se_ctxWait env)))))"

end
