(* ===== verification/Store.thy ===== *)
theory Store
  imports Queue
begin

text \<open>
  The store's invariant and what each of its operations does. The invariant says which client
  an address in the two registries stands for; it holds after \<open>New\<close> and through every
  sequence of operations, with the clients' own goroutines changing their connections meanwhile.
\<close>

section \<open>Elementary operations\<close>

lemma emit_simps [simp]:
  "sys_store (emit es s) = sys_store s" "sys_clients (emit es s) = sys_clients s"
  "sys_trace (emit es s) = sys_trace s @ es" "queue_param (emit es s) = queue_param s"
  "consumers_of (emit es s) = consumers_of s"
  by (simp_all add: emit_def queue_param_def consumers_of_def fun_eq_iff)

lemma put_client_simps [simp]:
  "sys_store (put_client a c s) = sys_store s" "sys_clients (put_client a c s) = (sys_clients s)[a := c]"
  "sys_trace (put_client a c s) = sys_trace s" "queue_param (put_client a c s) = queue_param s"
  "consumers_of (put_client a c s) = consumers_of s"
  by (simp_all add: put_client_def queue_param_def consumers_of_def fun_eq_iff)

lemma upd_store_simps [simp]:
  "sys_store (upd_store f s) = f (sys_store s)" "sys_clients (upd_store f s) = sys_clients s"
  "sys_trace (upd_store f s) = sys_trace s"
  by (simp_all add: upd_store_def)

definition map_ok :: "('k, 'v) gomap \<Rightarrow> bool" where
  "map_ok m \<longleftrightarrow> m \<noteq> None \<and> distinct (map fst (gm_entries m))"

lemma map_ok_make [simp]: "map_ok gm_make"
  by (simp add: map_ok_def gm_make_def)

lemma map_ok_put: "map_ok m \<Longrightarrow> map_ok (gm_put k v m)"
  by (auto simp: map_ok_def gm_put_def gm_set_def distinct_update split: option.splits)

lemma map_ok_entry: "map_ok m \<Longrightarrow> (k, v) \<in> set (gm_entries m) \<longleftrightarrow> gm_get m k = Some v"
  by (simp add: map_ok_def gm_get_def)

section \<open>The invariant\<close>

definition publisher_of :: "'c system \<Rightarrow> queue_name \<Rightarrow> addr option" where
  "publisher_of s name = gm_get (publishers (sys_store s)) name"

definition publisher_ok :: "'c system \<Rightarrow> queue_name \<Rightarrow> 'c client \<Rightarrow> bool" where
  "publisher_ok s name c \<longleftrightarrow>
     (\<exists>p. queue_param s name = Some p \<and> \<not> ConsumerOnly p \<and> retry c = Retry_of p) \<and>
     queueName c = name \<and> PublishHeadersBuilder c \<noteq> None \<and> consumerDone c = None"

definition consumer_ok :: "'c system \<Rightarrow> queue_name \<Rightarrow> 'c client \<Rightarrow> bool" where
  "consumer_ok s name c \<longleftrightarrow>
     (\<exists>p. queue_param s name = Some p \<and> retry c = Retry_of p) \<and>
     queueName c = name \<and> ConsumeHeadersExtractor c \<noteq> None \<and> consumerDone c \<noteq> None"

definition system_ok :: "'c system \<Rightarrow> bool" where
  "system_ok s \<longleftrightarrow>
     map_ok (publishers (sys_store s)) \<and> map_ok (consumers (sys_store s)) \<and>
     storeConsumeHeadersExtractor (sys_store s) \<noteq> None \<and>
     (\<forall>name p. queue_param s name = Some p \<and> \<not> ConsumerOnly p \<longrightarrow> publisher_of s name \<noteq> None) \<and>
     (\<forall>name a. publisher_of s name = Some a \<longrightarrow> a < length (sys_clients s) \<and> publisher_ok s name (client_at s a)) \<and>
     (\<forall>name. distinct (consumers_of s name)) \<and>
     (\<forall>name a. a \<in> set (consumers_of s name) \<longrightarrow> a < length (sys_clients s) \<and> consumer_ok s name (client_at s a))"

text \<open>What the other goroutines of a client leave alone.\<close>

definition same_identity :: "'c client \<Rightarrow> 'c client \<Rightarrow> bool" where
  "same_identity c d \<longleftrightarrow>
     queueName d = queueName c \<and> retry d = retry c \<and> callback d = callback c \<and> consumerDone d = consumerDone c \<and>
     PublishHeadersBuilder d = PublishHeadersBuilder c \<and> ConsumeHeadersExtractor d = ConsumeHeadersExtractor c"

lemma ok_identity:
  "same_identity c d \<Longrightarrow> queue_param s' = queue_param s \<Longrightarrow> publisher_ok s name c \<Longrightarrow> publisher_ok s' name d"
  "same_identity c d \<Longrightarrow> queue_param s' = queue_param s \<Longrightarrow> consumer_ok s name c \<Longrightarrow> consumer_ok s' name d"
  by (simp_all add: same_identity_def publisher_ok_def consumer_ok_def)

text \<open>Any step that keeps the registries and the identity of the old clients keeps the invariant.\<close>

lemma system_ok_frame:
  assumes ok: "system_ok s"
    and store: "publishers (sys_store s') = publishers (sys_store s)" "consumers (sys_store s') = consumers (sys_store s)"
      "storeConfig (sys_store s') = storeConfig (sys_store s)"
      "storeConsumeHeadersExtractor (sys_store s') = storeConsumeHeadersExtractor (sys_store s)"
    and len: "length (sys_clients s) \<le> length (sys_clients s')"
    and same: "\<And>a. a < length (sys_clients s) \<Longrightarrow> same_identity (client_at s a) (client_at s' a)"
  shows "system_ok s'"
proof -
  have q: "queue_param s' = queue_param s" by (simp add: queue_param_def fun_eq_iff store)
  have p: "publisher_of s' = publisher_of s" by (simp add: publisher_of_def fun_eq_iff store)
  have c: "consumers_of s' = consumers_of s" by (simp add: consumers_of_def fun_eq_iff store)
  have "a < length (sys_clients s') \<and> publisher_ok s' name (client_at s' a)" if "publisher_of s name = Some a" for name a
  proof -
    have "a < length (sys_clients s)" "publisher_ok s name (client_at s a)" using ok that by (simp_all add: system_ok_def)
    then show ?thesis using ok_identity(1) [OF same q] len by auto
  qed
  moreover have "a < length (sys_clients s') \<and> consumer_ok s' name (client_at s' a)"
    if "a \<in> set (consumers_of s name)" for name a
  proof -
    have "a < length (sys_clients s)" "consumer_ok s name (client_at s a)" using ok that by (simp_all add: system_ok_def)
    then show ?thesis using ok_identity(2) [OF same q] len by auto
  qed
  ultimately show ?thesis
    using ok unfolding system_ok_def q p c by (simp add: store)
qed

lemma same_identity_refl [simp]: "same_identity c c"
  by (simp add: same_identity_def)

lemma same_identity_trans: "same_identity a b \<Longrightarrow> same_identity b c \<Longrightarrow> same_identity a c"
  by (simp add: same_identity_def)

section \<open>New\<close>

lemma addPublisher_skip: "ConsumerOnly p \<Longrightarrow> addPublisher conf o' s (name, p) = s"
  by (simp add: addPublisher_def)

lemma addPublisher_add:
  "\<not> ConsumerOnly p \<Longrightarrow>
     addPublisher conf o' s (name, p) =
       s\<lparr>sys_clients := sys_clients s @ [newPublisherClient name p conf o'],
         sys_store := (sys_store s)\<lparr>publishers := gm_put name (length (sys_clients s)) (publishers (sys_store s))\<rparr>\<rparr>"
  by (simp add: addPublisher_def alloc_def upd_store_def)

text \<open>The publishers made from a list of entries, started from any system.\<close>

definition made_from :: "config \<Rightarrow> 'c options \<Rightarrow> (queue_name \<times> queue_item) list \<Rightarrow> 'c system \<Rightarrow> bool" where
  "made_from conf o' es s \<longleftrightarrow>
     (\<exists>ps. sys_store s = (empty_store conf o')\<lparr>publishers := ps\<rparr> \<and> map_ok ps \<and> sys_trace s = [] \<and>
        length (sys_clients s) = length [e \<leftarrow> es. \<not> ConsumerOnly (snd e)] \<and>
        (\<forall>name p. (name, p) \<in> set es \<and> \<not> ConsumerOnly p \<longrightarrow> gm_get ps name \<noteq> None) \<and>
        (\<forall>name a. gm_get ps name = Some a \<longrightarrow>
           a < length (sys_clients s) \<and>
           (\<exists>p. (name, p) \<in> set es \<and> \<not> ConsumerOnly p \<and> client_at s a = newPublisherClient name p conf o')))"

lemma made_from_snoc: "made_from conf o' es s \<Longrightarrow> made_from conf o' (es @ [e]) (addPublisher conf o' s e)"
proof (cases e)
  case (Pair name p)
  assume "made_from conf o' es s"
  then obtain ps where m: "sys_store s = (empty_store conf o')\<lparr>publishers := ps\<rparr>" "map_ok ps" "sys_trace s = []"
    "length (sys_clients s) = length [e \<leftarrow> es. \<not> ConsumerOnly (snd e)]"
    "\<And>name p. (name, p) \<in> set es \<Longrightarrow> \<not> ConsumerOnly p \<Longrightarrow> gm_get ps name \<noteq> None"
    "\<And>name a. gm_get ps name = Some a \<Longrightarrow> a < length (sys_clients s) \<and>
       (\<exists>p. (name, p) \<in> set es \<and> \<not> ConsumerOnly p \<and> client_at s a = newPublisherClient name p conf o')"
    unfolding made_from_def by blast
  have nn: "ps \<noteq> None" using m(2) by (simp add: map_ok_def)
  show ?thesis
  proof (cases "ConsumerOnly p")
    case True
    have "\<exists>q. (n, q) \<in> set (es @ [e]) \<and> \<not> ConsumerOnly q \<and> client_at s a = newPublisherClient n q conf o'"
      if "gm_get ps n = Some a" for n a
      using m(6) [OF that] by auto
    then show ?thesis unfolding made_from_def
      using m(1-5) m(6) True by (intro exI [of _ ps]) (auto simp: Pair addPublisher_skip)
  next
    case False
    then show ?thesis unfolding made_from_def
      using m(1,3,4) m(5) m(6) map_ok_put [OF m(2)]
      by (intro exI [of _ "gm_put name (length (sys_clients s)) ps"])
        (auto simp: Pair addPublisher_add gm_put_get [OF nn] nth_append less_SucI)
  qed
qed

lemma made_from_foldl:
  "made_from conf o' es s \<Longrightarrow> made_from conf o' (es @ fs) (foldl (addPublisher conf o') s fs)"
proof (induction fs arbitrary: es s)
  case (Cons f fs)
  from Cons.IH [OF made_from_snoc [OF Cons.prems]] show ?case by simp
qed simp

lemma newQueueStore_made:
  assumes "newQueueStore conf opts = Inr s"
  shows "made_from conf (resolve_options opts) (gm_entries (QueueParams conf)) s"
proof -
  let ?o = "resolve_options opts"
  let ?s = "\<lparr>sys_store = empty_store conf ?o, sys_clients = [], sys_trace = []\<rparr>"
  have "made_from conf ?o [] ?s"
    by (simp add: made_from_def) (intro exI [of _ gm_make], simp add: empty_store_def)
  from made_from_foldl [OF this, of "gm_entries (QueueParams conf)"] show ?thesis
    using assms by (simp add: newQueueStore_def Let_def split: option.splits)
qed

lemma newQueueStore_ok:
  assumes new: "newQueueStore conf opts = Inr s" and keys: "distinct (map fst (gm_entries (QueueParams conf)))"
  shows "system_ok s"
proof -
  let ?o = "resolve_options opts"
  have call: "publishHeadersBuilder ?o \<noteq> None" "consumeHeadersExtractor ?o \<noteq> None"
    using callable_resolve [of opts] by (simp_all add: callable_def)
  obtain ps where s: "sys_store s = (empty_store conf ?o)\<lparr>publishers := ps\<rparr>" "map_ok ps"
      "\<And>n p. (n, p) \<in> set (gm_entries (QueueParams conf)) \<Longrightarrow> \<not> ConsumerOnly p \<Longrightarrow> gm_get ps n \<noteq> None"
      "\<And>n a. gm_get ps n = Some a \<Longrightarrow> a < length (sys_clients s) \<and>
         (\<exists>p. (n, p) \<in> set (gm_entries (QueueParams conf)) \<and> \<not> ConsumerOnly p \<and>
            client_at s a = newPublisherClient n p conf ?o)"
    using newQueueStore_made [OF new] unfolding made_from_def by blast
  have param: "queue_param s n = Some p \<longleftrightarrow> (n, p) \<in> set (gm_entries (QueueParams conf))" for n p
    using keys by (simp add: queue_param_def s(1) empty_store_def gm_get_def gm_make_def)
  have cons: "consumers_of s n = []" for n by (simp add: consumers_of_def s(1) empty_store_def)
  have "a < length (sys_clients s) \<and> publisher_ok s n (client_at s a)" if "publisher_of s n = Some a" for n a
    using s(4) [of n a] that call(1) param
    by (auto simp: publisher_of_def s(1) publisher_ok_def newPublisherClient_def newClient_def)
  moreover have "publisher_of s n \<noteq> None" if "queue_param s n = Some p" "\<not> ConsumerOnly p" for n p
    using s(3) param that by (simp add: publisher_of_def s(1))
  ultimately show ?thesis
    unfolding system_ok_def using s(2) call(2) by (simp add: cons) (simp add: s(1) empty_store_def)
qed

section \<open>Registering consumers\<close>

definition consumer_client ::
  "'c system \<Rightarrow> ctx_id \<Rightarrow> queue_item \<Rightarrow> queue_name \<Rightarrow> 'c consumer_handler option \<Rightarrow> 'c client" where
  "consumer_client s ctx p name cb =
     (newClient name p (storeConfig (sys_store s)) (storeLgr (sys_store s)))
       \<lparr>callback := cb, consumerDone := Some ctx,
        ConsumeHeadersExtractor := storeConsumeHeadersExtractor (sys_store s)\<rparr>"

lemma addConsumerClients_closed:
  "queue_param s name = Some p \<Longrightarrow>
     addConsumerClients n s ctx name cb cl =
       (s\<lparr>sys_clients := sys_clients s @ replicate n (consumer_client s ctx p name cb),
          sys_trace := sys_trace s @ map (\<lambda>a. GoReconnect a (URL (storeConfig (sys_store s))))
            [length (sys_clients s)..<length (sys_clients s) + n]\<rparr>,
        cl @ [length (sys_clients s)..<length (sys_clients s) + n], None)"
proof (induction n arbitrary: s cl)
  case (Suc n)
  let ?c = "consumer_client s ctx p name cb"
  let ?t = "emit [GoReconnect (length (sys_clients s)) (URL (storeConfig (sys_store s)))]
    (s\<lparr>sys_clients := sys_clients s @ [?c]\<rparr>)"
  have "addConsumerClient s ctx name cb = (?t, Inr (length (sys_clients s)))"
    using Suc.prems by (simp add: addConsumerClient_def alloc_def consumer_client_def Let_def)
  moreover have "queue_param ?t name = Some p" "consumer_client ?t ctx p name cb = ?c"
    using Suc.prems by (simp_all add: queue_param_def consumer_client_def)
  ultimately show ?case
    using Suc.IH [of ?t] by (simp add: upt_conv_Cons emit_def del: upt_Suc)
qed simp

definition copies :: "int \<Rightarrow> nat" where
  "copies parallelism = (if parallelism \<le> 0 then 1 else nat parallelism)"

lemma AddConsumerN_refused:
  "consumersStarted (sys_store s) \<Longrightarrow>
     AddConsumerN answers s ctx name par cb = (s, Some (Sentinel ErrConsumersAlreadyStarted))"
  "\<not> consumersStarted (sys_store s) \<Longrightarrow> queue_param s name = None \<Longrightarrow>
     AddConsumerN answers s ctx name par cb = (s, Some (Errorf ''%w: %s'' [name] [Sentinel ErrQueueNotFound]))"
  by (simp_all add: AddConsumerN_def AddConsumerN_begin_def close_all_def)

lemma AddConsumerN_registers:
  assumes "\<not> consumersStarted (sys_store s)" "queue_param s name = Some p"
    and "AddConsumerN answers s ctx name par cb = (s', err)"
  shows "err = None"
    "sys_clients s' = sys_clients s @ replicate (copies par) (consumer_client s ctx p name cb)"
    "sys_store s' = (sys_store s)\<lparr>consumers := gm_put name
       (consumers_of s name @ [length (sys_clients s)..<length (sys_clients s) + copies par]) (consumers (sys_store s))\<rparr>"
    "filter (\<lambda>e. case e of QueueLog _ _ _ \<Rightarrow> False | _ \<Rightarrow> True) (sys_trace s') =
       filter (\<lambda>e. case e of QueueLog _ _ _ \<Rightarrow> False | _ \<Rightarrow> True) (sys_trace s) @
       map (\<lambda>a. GoReconnect a (URL (storeConfig (sys_store s))))
         [length (sys_clients s)..<length (sys_clients s) + copies par]"
proof -
  define t where "t = emit [QueueLog Info (''adding '' @ append_int (int (copies par)) 1 @ '' handlers for queue '' @ name) None]
    (if par \<le> 0 then emit [QueueLog Warn (''parallelism <= 0 for queue '' @ name @ '', using 1'') None] s else s)"
  have t: "sys_store t = sys_store s" "sys_clients t = sys_clients s" "queue_param t = queue_param s"
    by (simp_all add: t_def)
  have cc: "consumer_client t ctx p name cb = consumer_client s ctx p name cb"
    by (simp add: consumer_client_def t)
  have begin_: "AddConsumerN_begin s ctx name par cb = addConsumerClients (copies par) t ctx name cb []"
    using assms(1,2) by (simp add: AddConsumerN_begin_def copies_def t_def Let_def)
  have r: "AddConsumerN answers s ctx name par cb =
      AddConsumerN_commit name [length (sys_clients s)..<length (sys_clients s) + copies par]
        (t\<lparr>sys_clients := sys_clients s @ replicate (copies par) (consumer_client s ctx p name cb),
          sys_trace := sys_trace t @ map (\<lambda>a. GoReconnect a (URL (storeConfig (sys_store s))))
            [length (sys_clients s)..<length (sys_clients s) + copies par]\<rparr>)"
    using assms(1,2) unfolding AddConsumerN_def begin_
    by (simp add: addConsumerClients_closed [of t name p] t cc AddConsumerN_commit_def)
  have trace: "filter (\<lambda>e. case e of QueueLog _ _ _ \<Rightarrow> False | _ \<Rightarrow> True) (sys_trace t) =
      filter (\<lambda>e. case e of QueueLog _ _ _ \<Rightarrow> False | _ \<Rightarrow> True) (sys_trace s)"
    by (simp add: t_def)
  show "err = None"
    "sys_clients s' = sys_clients s @ replicate (copies par) (consumer_client s ctx p name cb)"
    "sys_store s' = (sys_store s)\<lparr>consumers := gm_put name
       (consumers_of s name @ [length (sys_clients s)..<length (sys_clients s) + copies par]) (consumers (sys_store s))\<rparr>"
    "filter (\<lambda>e. case e of QueueLog _ _ _ \<Rightarrow> False | _ \<Rightarrow> True) (sys_trace s') =
       filter (\<lambda>e. case e of QueueLog _ _ _ \<Rightarrow> False | _ \<Rightarrow> True) (sys_trace s) @
       map (\<lambda>a. GoReconnect a (URL (storeConfig (sys_store s))))
         [length (sys_clients s)..<length (sys_clients s) + copies par]"
    using assms(1,3) trace unfolding r AddConsumerN_commit_def
    by (auto simp: t upd_store_def consumers_of_def comp_def)
qed

lemma AddConsumerN_ok:
  assumes ok: "system_ok s"
  shows "system_ok (fst (AddConsumerN answers s ctx name par cb))"
proof (cases "consumersStarted (sys_store s) \<or> queue_param s name = None")
  case True
  then show ?thesis using ok by (cases "consumersStarted (sys_store s)") (auto simp: AddConsumerN_refused)
next
  case False
  then obtain p where p: "\<not> consumersStarted (sys_store s)" "queue_param s name = Some p" by auto
  define s' where "s' = fst (AddConsumerN answers s ctx name par cb)"
  have "AddConsumerN answers s ctx name par cb = (s', snd (AddConsumerN answers s ctx name par cb))"
    by (simp add: s'_def)
  note r = AddConsumerN_registers [OF p this]
  let ?n = "length (sys_clients s)" and ?k = "copies par"
  have nn: "consumers (sys_store s) \<noteq> None" using ok by (simp add: system_ok_def map_ok_def)
  have q: "queue_param s' = queue_param s" by (simp add: queue_param_def r(3) fun_eq_iff)
  have pub: "publisher_of s' = publisher_of s" by (simp add: publisher_of_def r(3) fun_eq_iff)
  have cons: "consumers_of s' n = (if n = name then consumers_of s name @ [?n..<?n + ?k] else consumers_of s n)" for n
    by (simp add: consumers_of_def r(3) gm_put_get [OF nn])
  have old: "client_at s' a = client_at s a" if "a < ?n" for a using that by (simp add: r(2) nth_append)
  have new: "client_at s' a = consumer_client s ctx p name cb" if "?n \<le> a" "a < ?n + ?k" for a
    using that by (simp add: r(2) nth_append)
  have len: "length (sys_clients s') = ?n + ?k" by (simp add: r(2))
  have in_old: "a < ?n" "consumer_ok s n (client_at s a)" if "a \<in> set (consumers_of s n)" for n a
    using ok that by (simp_all add: system_ok_def)
  have cn: "consumer_ok s name (consumer_client s ctx p name cb)"
    using ok p by (simp add: system_ok_def consumer_ok_def consumer_client_def newClient_def)
  have cok: "consumer_ok s' n c = consumer_ok s n c" "publisher_ok s' n c = publisher_ok s n c" for n c
    by (simp_all add: consumer_ok_def publisher_ok_def q)
  have 1: "a < length (sys_clients s') \<and> consumer_ok s' n (client_at s' a)" if "a \<in> set (consumers_of s' n)" for n a
  proof (cases "a < ?n")
    case True
    then have "a \<in> set (consumers_of s n)" using that by (auto simp: cons split: if_splits)
    then show ?thesis using in_old [of a n] by (simp add: old True cok len trans_less_add1)
  next
    case False
    then have "n = name" "a < ?n + ?k" using that in_old by (auto simp: cons split: if_splits)
    then show ?thesis using cn False new [of a] by (simp add: cok len)
  qed
  have 2: "a < length (sys_clients s') \<and> publisher_ok s' n (client_at s' a)" if "publisher_of s' n = Some a" for n a
    using ok that by (auto simp: pub cok system_ok_def len old trans_less_add1)
  have 3: "distinct (consumers_of s' n)" for n
    using ok in_old [of _ name] by (fastforce simp: cons system_ok_def)
  have 4: "map_ok (consumers (sys_store s'))" using ok by (simp add: r(3) system_ok_def map_ok_put)
  have "system_ok s'"
    unfolding system_ok_def using ok 1 2 3 4 by (simp add: pub q) (simp add: r(3) system_ok_def)
  then show ?thesis by (simp add: s'_def)
qed

section \<open>Closing\<close>

text \<open>
  The contract of a close that runs once: it leaves the object closed, and on a closed object
  it does nothing and reports nothing.
\<close>

locale closable =
  fixes shut :: "'a \<Rightarrow> 'b \<Rightarrow> 'b \<times> 'e list \<times> 'r option"
    and is_shut :: "'b \<Rightarrow> bool"
  assumes shuts: "is_shut (fst (shut a x))"
    and shut_again: "is_shut x \<Longrightarrow> shut a x = (x, [], None)"
begin

lemma shut_twice: "shut b (fst (shut a x)) = (fst (shut a x), [], None)"
  by (rule shut_again [OF shuts])

lemma shut_idem: "fst (shut b (fst (shut a x))) = fst (shut a x)"
  by (simp add: shut_twice)

end

interpretation client_close: closable close closeOnce
  by unfold_locales (simp_all add: close_def Let_def)

lemma close_identity: "same_identity c (fst (close answers c))"
  by (simp add: close_def same_identity_def Let_def)

lemma close_open:
  "\<not> closeOnce c \<Longrightarrow> done_closed (fst (close answers c)) \<and> \<not> isReady (fst (close answers c))"
  by (simp add: close_def Let_def)

definition close_err :: "close_answers \<Rightarrow> 'c system \<Rightarrow> addr \<Rightarrow> go_error option" where
  "close_err answers s a = snd (snd (close (answers a) (client_at s a)))"

fun is_library_call :: "queue_event \<Rightarrow> bool" where
  "is_library_call (CloseChannel _) = True"
| "is_library_call (CloseConnection _) = True"
| "is_library_call _ = False"

definition library_calls :: "'c system \<Rightarrow> queue_event list" where
  "library_calls s = filter is_library_call (sys_trace s)"

lemma close_at_simps:
  "sys_store (fst (close_at answers a s)) = sys_store s"
  "sys_clients (fst (close_at answers a s)) = (sys_clients s)[a := fst (close (answers a) (client_at s a))]"
  "sys_trace (fst (close_at answers a s)) = sys_trace s @ fst (snd (close (answers a) (client_at s a)))"
  "snd (close_at answers a s) = close_err answers s a"
  by (simp_all add: close_at_def close_err_def split: prod.splits)

text \<open>What the turn of one client does, its error handling aside.\<close>

lemma closeOneClient_state:
  "sys_store (fst (closeOneClient env n i r a fe s)) = sys_store s"
  "sys_clients (fst (closeOneClient env n i r a fe s)) = (sys_clients s)[a := fst (close (se_answers env a) (client_at s a))]"
  "library_calls (fst (closeOneClient env n i r a fe s)) =
     library_calls s @ filter is_library_call (fst (snd (close (se_answers env a) (client_at s a))))"
  using close_at_simps(1-3) [of "se_answers env" a s]
  by (auto simp: closeOneClient_def Let_def library_calls_def split: prod.splits option.splits)

lemma closeOneClient_error:
  "snd (closeOneClient env n i r a fe s) = None \<longleftrightarrow>
     fe = None \<and> se_ctxAt env a = None \<and> close_err (se_answers env) s a = None"
  using close_at_simps(4) [of "se_answers env" a s]
  by (cases "close_err (se_answers env) s a"; cases "se_ctxAt env a"; cases fe)
    (auto simp: closeOneClient_def Let_def split: prod.splits)

lemma close_err_update:
  "close_err answers s b = None \<Longrightarrow> sys_clients t = (sys_clients s)[b := fst (close (answers b) (client_at s b))] \<Longrightarrow>
     close_err answers t a = None \<longleftrightarrow> close_err answers s a = None"
  by (cases "a = b"; cases "b < length (sys_clients s)") (simp_all add: close_err_def client_close.shut_twice list_update_beyond not_less)

abbreviation close_step_of ::
  "shutdown_env \<Rightarrow> 'c system \<times> go_error option \<Rightarrow> queue_name \<times> nat \<times> string \<times> addr \<Rightarrow> 'c system \<times> go_error option" where
  "close_step_of env \<equiv> \<lambda>(s, firstErr) (name, i, role, a). closeOneClient env name i role a firstErr s"

abbreviation order_addr :: "queue_name \<times> nat \<times> string \<times> addr \<Rightarrow> addr" where
  "order_addr x \<equiv> snd (snd (snd x))"

lemma close_fold_state:
  assumes "foldl (close_step_of env) (s, fe) xs = (t, fe')"
  shows "sys_store t = sys_store s \<and> length (sys_clients t) = length (sys_clients s) \<and>
    (\<forall>a < length (sys_clients s). client_at t a =
       (if a \<in> order_addr ` set xs then fst (close (se_answers env a) (client_at s a)) else client_at s a))"
  using assms
proof (induction xs arbitrary: s fe)
  case (Cons x xs)
  obtain n i r b where x: "x = (n, i, r, b)" by (cases x) auto
  define u where "u = fst (closeOneClient env n i r b fe s)"
  have u: "sys_store u = sys_store s" "sys_clients u = (sys_clients s)[b := fst (close (se_answers env b) (client_at s b))]"
    by (simp_all add: u_def closeOneClient_state)
  have "foldl (close_step_of env) (u, snd (closeOneClient env n i r b fe s)) xs = (t, fe')"
    using Cons.prems by (simp add: x u_def)
  note IH = Cons.IH [OF this]
  have cu: "client_at u a = (if a = b then fst (close (se_answers env a) (client_at s a)) else client_at s a)"
    if "a < length (sys_clients s)" for a using that by (simp add: u(2))
  have "client_at t a = (if a \<in> order_addr ` set (x # xs) then fst (close (se_answers env a) (client_at s a)) else client_at s a)"
    if "a < length (sys_clients s)" for a
  proof -
    have "client_at t a = (if a \<in> order_addr ` set xs then fst (close (se_answers env a) (client_at u a)) else client_at u a)"
      using IH that by (simp add: u(2))
    then show ?thesis using cu [OF that] by (cases "a = b") (simp_all add: x client_close.shut_idem)
  qed
  then show ?case using IH by (simp add: u)
qed simp

lemma close_fold_error:
  assumes "foldl (close_step_of env) (s, fe) xs = (t, fe')"
  shows "fe' = None \<longleftrightarrow>
    fe = None \<and> (\<forall>x \<in> set xs. se_ctxAt env (order_addr x) = None \<and> close_err (se_answers env) s (order_addr x) = None)"
  using assms
proof (induction xs arbitrary: s fe)
  case (Cons x xs)
  obtain n i r b where x: "x = (n, i, r, b)" by (cases x) auto
  define u where "u = fst (closeOneClient env n i r b fe s)"
  have f: "foldl (close_step_of env) (u, snd (closeOneClient env n i r b fe s)) xs = (t, fe')"
    using Cons.prems by (simp add: x u_def)
  have "sys_clients u = (sys_clients s)[b := fst (close (se_answers env b) (client_at s b))]"
    by (simp add: u_def closeOneClient_state)
  then have "close_err (se_answers env) u a = None \<longleftrightarrow> close_err (se_answers env) s a = None"
    if "close_err (se_answers env) s b = None" for a
    using close_err_update [OF that] by blast
  with Cons.IH [OF f] show ?case by (auto simp: x closeOneClient_error)
qed simp

lemma close_fold_calls:
  assumes "foldl (close_step_of env) (s, fe) xs = (t, fe')" "\<forall>x \<in> set xs. closeOnce (client_at s (order_addr x))"
  shows "library_calls t = library_calls s \<and> sys_clients t = sys_clients s"
  using assms
proof (induction xs arbitrary: s fe)
  case (Cons x xs)
  obtain n i r b where x: "x = (n, i, r, b)" by (cases x) auto
  define u where "u = fst (closeOneClient env n i r b fe s)"
  have b: "close (se_answers env b) (client_at s b) = (client_at s b, [], None)"
    using Cons.prems(2) by (simp add: x client_close.shut_again)
  have u: "sys_clients u = sys_clients s" "library_calls u = library_calls s"
    by (simp_all add: u_def closeOneClient_state b)
  have "foldl (close_step_of env) (u, snd (closeOneClient env n i r b fe s)) xs = (t, fe')"
    using Cons.prems(1) by (simp add: x u_def)
  from Cons.IH [OF this] Cons.prems(2) u show ?case by simp
qed simp

lemma close_order_addrs:
  assumes "system_ok s"
  shows "order_addr ` set (close_order (fst (snapshotClients s)) (snd (snapshotClients s))) =
    {a. \<exists>n. publisher_of s n = Some a \<or> a \<in> set (consumers_of s n)}"
proof -
  have copy: "map_ok (gm_copy gm_make m)" for m :: "(queue_name, addr) gomap"
  proof -
    have "distinct (map fst (foldr (\<lambda>(k, v). AList.update k v) xs []))" for xs :: "(queue_name \<times> addr) list"
      by (induction xs) (auto simp: distinct_update)
    then show ?thesis by (simp add: map_ok_def gm_copy_def gm_make_def)
  qed
  have p: "(n, a) \<in> set (gm_entries (gm_copy gm_make (publishers (sys_store s)))) \<longleftrightarrow> publisher_of s n = Some a" for n a
    by (simp add: map_ok_entry [OF copy] publisher_of_def)
  have "map_ok (consumers (sys_store s))" using assms by (simp add: system_ok_def)
  then have c: "(\<exists>as. (n, as) \<in> set (gm_entries (consumers (sys_store s))) \<and> a \<in> set as) \<longleftrightarrow> a \<in> set (consumers_of s n)" for n a
    by (cases "gm_get (consumers (sys_store s)) n") (simp_all add: map_ok_entry consumers_of_def)
  have "map order_addr (close_order ps (Some cs)) = map snd (gm_entries ps) @ concat (map snd cs)" for ps cs
    by (simp add: close_order_def map_concat comp_def split_beta enumerate_eq_zip)
  then have "order_addr ` set (close_order ps (Some cs)) = snd ` set (gm_entries ps) \<union> (\<Union>(n, as) \<in> set cs. set as)" for ps cs
    by (subst set_map [symmetric]) (simp add: split_beta)
  then have "order_addr ` set (close_order (fst (snapshotClients s)) (snd (snapshotClients s))) =
      snd ` set (gm_entries (gm_copy gm_make (publishers (sys_store s)))) \<union>
      (\<Union>(n, as) \<in> set (gm_entries (consumers (sys_store s))). set as)"
    by (simp add: snapshotClients_def)
  also have "\<dots> = {a. \<exists>n. publisher_of s n = Some a \<or> a \<in> set (consumers_of s n)}"
  proof -
    have 1: "a \<in> snd ` set (gm_entries (gm_copy gm_make (publishers (sys_store s)))) \<longleftrightarrow> (\<exists>n. publisher_of s n = Some a)" for a
      by (simp add: image_iff Bex_def split_paired_Ex p)
    have 2: "a \<in> (\<Union>(n, as) \<in> set (gm_entries (consumers (sys_store s))). set as) \<longleftrightarrow> (\<exists>n. a \<in> set (consumers_of s n))" for a
      by (simp add: c [symmetric] Bex_def split_paired_Ex)
    show ?thesis by (rule set_eqI) (simp only: Un_iff 1 2 mem_Collect_eq, blast)
  qed
  finally show ?thesis .
qed

section \<open>The other operations\<close>

lemma ensureConnected_simps:
  "sys_store (ensureConnected a s) = sys_store s"
  "length (sys_clients (ensureConnected a s)) = length (sys_clients s)"
  "b < length (sys_clients s) \<Longrightarrow> client_at (ensureConnected a s) b =
     (if b = a then (client_at s b)\<lparr>startOnce := True\<rparr> else client_at s b)"
  by (auto simp: ensureConnected_def Let_def nth_list_update)

lemma ensureConnected_ok: "system_ok s \<Longrightarrow> system_ok (ensureConnected a s)"
  by (erule system_ok_frame) (simp_all add: ensureConnected_simps same_identity_def)

lemma Publish_ok: "system_ok s \<Longrightarrow> system_ok (fst (Publish s name))"
  by (simp add: Publish_def ensureConnected_ok split: option.splits)

lemma InitConsumer_start_cases:
  "InitConsumer_start (cs, n) s =
     (if n = 0 then (s, Some (Sentinel ErrNoConsumersRegistered))
      else if consumersStarted (sys_store s) then (s, Some (Sentinel ErrConsumersAlreadyStarted))
      else (s\<lparr>sys_store := (sys_store s)\<lparr>consumersStarted := True\<rparr>,
               sys_trace := sys_trace s @ map GoConsumerLoop (concat (map snd (gm_entries cs)))\<rparr>, None))"
  by (simp add: InitConsumer_start_def startConsumerWorkers_def upd_store_def emit_def)

lemma InitConsumer_start_ok: "system_ok s \<Longrightarrow> system_ok (fst (InitConsumer_start (cs, n) s))"
  by (erule system_ok_frame) (simp_all add: InitConsumer_start_cases)

lemma InitConsumer_ok: "system_ok s \<Longrightarrow> system_ok (fst (InitConsumer s ctxErr))"
  by (simp add: InitConsumer_def snapshotConsumers_def InitConsumer_start_ok split: option.splits)

lemma Shutdown_fold:
  "foldl (close_step_of env) (s, None) (close_order (fst (snapshotClients s)) (snd (snapshotClients s))) =
     (fst (Shutdown env s), snd (closeClients env (fst (snapshotClients s)) (snd (snapshotClients s)) s))"
  by (simp add: Shutdown_def closeClients_def split_beta)

lemma Shutdown_state:
  assumes "system_ok s"
  shows "sys_store (fst (Shutdown env s)) = sys_store s \<and>
    length (sys_clients (fst (Shutdown env s))) = length (sys_clients s) \<and>
    (\<forall>a < length (sys_clients s). client_at (fst (Shutdown env s)) a =
       (if \<exists>n. publisher_of s n = Some a \<or> a \<in> set (consumers_of s n)
        then fst (close (se_answers env a) (client_at s a)) else client_at s a))"
  using close_fold_state [OF Shutdown_fold [of env s]] close_order_addrs [OF assms] by simp

lemma Shutdown_ok:
  assumes "system_ok s"
  shows "system_ok (fst (Shutdown env s))"
proof -
  note st = Shutdown_state [OF assms, of env]
  show ?thesis
    by (rule system_ok_frame [OF assms]) (simp_all add: st close_identity)
qed

section \<open>Sequences of operations\<close>

datatype 'c store_op =
    OpAddConsumerN close_answers ctx_id queue_name int "'c consumer_handler option"
  | OpPublish queue_name
  | OpInitConsumer "ctx_error option"
  | OpShutdown shutdown_env
  | OpClient addr "'c client" \<comment> \<open>another goroutine of the client at this address\<close>

fun enabled :: "'c store_op \<Rightarrow> 'c system \<Rightarrow> bool" where
  "enabled (OpClient a c) s \<longleftrightarrow> a < length (sys_clients s) \<and> same_identity (client_at s a) c"
| "enabled _ s \<longleftrightarrow> True"

fun perform :: "'c store_op \<Rightarrow> 'c system \<Rightarrow> 'c system" where
  "perform (OpAddConsumerN answers ctx name par cb) s = fst (AddConsumerN answers s ctx name par cb)"
| "perform (OpPublish name) s = fst (Publish s name)"
| "perform (OpInitConsumer ctxErr) s = fst (InitConsumer s ctxErr)"
| "perform (OpShutdown env) s = fst (Shutdown env s)"
| "perform (OpClient a c) s = put_client a c s"

definition store_step :: "'c system \<Rightarrow> 'c store_op \<Rightarrow> 'c system \<Rightarrow> bool" where
  "store_step s oper t \<longleftrightarrow> enabled oper s \<and> t = perform oper s"

lemma store_step_ok:
  assumes "system_ok s" "store_step s oper t"
  shows "system_ok t"
proof (cases oper)
  case (OpClient a c)
  with assms show ?thesis
    by (intro system_ok_frame [OF assms(1)]) (auto simp: store_step_def nth_list_update)
qed (use assms in \<open>simp_all add: store_step_def AddConsumerN_ok Publish_ok InitConsumer_ok Shutdown_ok\<close>)

end
