(* ===== verification/StoreProps.thy ===== *)
theory StoreProps
  imports Store
begin

text \<open>
  The properties of the store's operations: what is registered, routed, started and closed, in
  every sequence of operations after \<open>New\<close>.
\<close>

section \<open>Starting the loops\<close>

definition registered :: "'c system \<Rightarrow> addr set" where
  "registered s = {a. \<exists>n. a \<in> set (consumers_of s n)}"

fun loop_of :: "queue_event \<Rightarrow> addr list" where
  "loop_of (GoConsumerLoop a) = [a]"
| "loop_of _ = []"

definition started_loops :: "'c system \<Rightarrow> addr list" where
  "started_loops s = concat (map loop_of (sys_trace s))"

lemma registered_entries:
  "system_ok s \<Longrightarrow> registered s = set (concat (map snd (gm_entries (consumers (sys_store s)))))"
proof -
  assume "system_ok s"
  then have m: "map_ok (consumers (sys_store s))" by (simp add: system_ok_def)
  have "(\<exists>as. (n, as) \<in> set (gm_entries (consumers (sys_store s))) \<and> a \<in> set as) \<longleftrightarrow> a \<in> set (consumers_of s n)" for n a
    by (cases "gm_get (consumers (sys_store s)) n") (simp_all add: map_ok_entry [OF m] consumers_of_def)
  then show ?thesis
    by (intro set_eqI) (simp add: registered_def Bex_def split_paired_Ex)
qed

lemma distinct_concat_entries:
  "distinct (map fst es) \<Longrightarrow> (\<And>n as. (n, as) \<in> set es \<Longrightarrow> distinct as \<and> (\<forall>a \<in> set as. f a = n)) \<Longrightarrow>
     distinct (concat (map snd es))"
proof (induction es)
  case (Cons e es)
  obtain n as where e: "e = (n, as)" by (cases e)
  have as: "distinct as" "\<And>a. a \<in> set as \<Longrightarrow> f a = n" using Cons.prems(2) [of n as] by (auto simp: e)
  have rest: "distinct (concat (map snd es))"
    by (rule Cons.IH) (use Cons.prems in auto)
  have "a \<notin> set (concat (map snd es))" if "a \<in> set as" for a
  proof
    assume "a \<in> set (concat (map snd es))"
    then obtain m bs where "(m, bs) \<in> set es" "a \<in> set bs" by auto
    moreover from this have "f a = m" using Cons.prems(2) [of m bs] by auto
    ultimately show False using as(2) [OF that] Cons.prems(1) by (force simp: e)
  qed
  then show ?case using as(1) rest by (auto simp: e)
qed simp

lemma distinct_registered:
  assumes ok: "system_ok s"
  shows "distinct (concat (map snd (gm_entries (consumers (sys_store s)))))"
proof -
  have m: "map_ok (consumers (sys_store s))" using ok by (simp add: system_ok_def)
  show ?thesis
  proof (rule distinct_concat_entries [where f = "\<lambda>a. queueName (client_at s a)"])
    show "distinct (map fst (gm_entries (consumers (sys_store s))))" using m by (simp add: map_ok_def)
  next
    fix n as
    assume "(n, as) \<in> set (gm_entries (consumers (sys_store s)))"
    then have "consumers_of s n = as" by (simp add: map_ok_entry [OF m] consumers_of_def)
    then show "distinct as \<and> (\<forall>a \<in> set as. queueName (client_at s a) = n)"
      using ok by (auto simp: system_ok_def consumer_ok_def)
  qed
qed

text \<open>
  Before \<open>InitConsumer\<close> succeeds no loop runs; afterwards exactly the registered clients have
  a loop, one each.
\<close>

definition loops_inv :: "'c system \<Rightarrow> bool" where
  "loops_inv s \<longleftrightarrow>
     distinct (started_loops s) \<and>
     set (started_loops s) = (if consumersStarted (sys_store s) then registered s else {})"

lemma started_loops_filter:
  "filter (\<lambda>e. case e of QueueLog _ _ _ \<Rightarrow> False | _ \<Rightarrow> True) es = filter (\<lambda>e. case e of QueueLog _ _ _ \<Rightarrow> False | _ \<Rightarrow> True) fs \<Longrightarrow>
     concat (map loop_of es) = concat (map loop_of fs)"
proof -
  have "concat (map loop_of es) = concat (map loop_of (filter (\<lambda>e. case e of QueueLog _ _ _ \<Rightarrow> False | _ \<Rightarrow> True) es))" for es
    by (induction es) (auto split: queue_event.splits)
  then show "filter (\<lambda>e. case e of QueueLog _ _ _ \<Rightarrow> False | _ \<Rightarrow> True) es = filter (\<lambda>e. case e of QueueLog _ _ _ \<Rightarrow> False | _ \<Rightarrow> True) fs \<Longrightarrow>
     concat (map loop_of es) = concat (map loop_of fs)" by metis
qed

lemma no_loops_in_reconnects: "concat (map loop_of (map (\<lambda>a. GoReconnect a u) as)) = []"
  by (induction as) simp_all

lemma started_of_loops [simp]: "concat (map (loop_of \<circ> GoConsumerLoop) as) = as"
  by (induction as) simp_all

lemma loops_AddConsumerN:
  assumes "system_ok s" "loops_inv s"
  shows "loops_inv (fst (AddConsumerN answers s ctx name par cb))"
proof (cases "consumersStarted (sys_store s) \<or> queue_param s name = None")
  case True
  then show ?thesis using assms by (cases "consumersStarted (sys_store s)") (auto simp: AddConsumerN_refused)
next
  case False
  then obtain p where p: "\<not> consumersStarted (sys_store s)" "queue_param s name = Some p" by auto
  define s' where "s' = fst (AddConsumerN answers s ctx name par cb)"
  have "AddConsumerN answers s ctx name par cb = (s', snd (AddConsumerN answers s ctx name par cb))"
    by (simp add: s'_def)
  note r = AddConsumerN_registers [OF p this]
  have "started_loops s' = started_loops (s'\<lparr>sys_trace := sys_trace s @ map (\<lambda>a. GoReconnect a (URL (storeConfig (sys_store s))))
         [length (sys_clients s)..<length (sys_clients s) + copies par]\<rparr>)"
    unfolding started_loops_def by (rule started_loops_filter) (simp add: r(4) filter_map comp_def)
  then have "started_loops s' = started_loops s"
    by (simp add: started_loops_def no_loops_in_reconnects)
  then show ?thesis using assms(2) p(1) by (simp add: loops_inv_def r(3) flip: s'_def)
qed

lemma close_starts_nothing: "concat (map loop_of (fst (snd (close answers c)))) = []"
  by (cases "ch c"; cases "conn c") (simp_all add: close_def Let_def)

lemma closeOneClient_loops: "started_loops (fst (closeOneClient env n i r a fe s)) = started_loops s"
proof -
  have "started_loops (fst (close_at (se_answers env) a s)) = started_loops s"
    using close_starts_nothing [of "se_answers env a" "client_at s a"]
    by (simp add: started_loops_def close_at_simps)
  then show ?thesis
    by (auto simp: closeOneClient_def Let_def started_loops_def split: prod.splits option.splits)
qed

lemma close_fold_loops: "started_loops (fst (foldl (close_step_of env) (s, fe) xs)) = started_loops s"
proof (induction xs arbitrary: s fe)
  case (Cons x xs)
  obtain n i r b where x: "x = (n, i, r, b)" by (cases x) auto
  show ?case
    using Cons.IH [of "fst (closeOneClient env n i r b fe s)" "snd (closeOneClient env n i r b fe s)"]
    by (simp add: x closeOneClient_loops)
qed simp

lemma loops_Shutdown: "system_ok s \<Longrightarrow> loops_inv s \<Longrightarrow> loops_inv (fst (Shutdown env s))"
proof -
  assume "system_ok s" "loops_inv s"
  moreover have "started_loops (fst (Shutdown env s)) = started_loops s"
    using close_fold_loops [of env s None "close_order (fst (snapshotClients s)) (snd (snapshotClients s))"]
    by (simp add: Shutdown_fold)
  ultimately show ?thesis
    using Shutdown_state [of s env] by (simp add: loops_inv_def registered_def consumers_of_def)
qed

lemma loops_InitConsumer: "system_ok s \<Longrightarrow> loops_inv s \<Longrightarrow> loops_inv (fst (InitConsumer s ctxErr))"
proof (cases "guardConsumerStart s ctxErr")
  case None
  assume ok: "system_ok s" and inv: "loops_inv s"
  let ?all = "concat (map snd (gm_entries (consumers (sys_store s))))"
  have ns: "\<not> consumersStarted (sys_store s)" using None by (simp add: guardConsumerStart_def split: if_splits)
  then have none: "started_loops s = []" using inv by (simp add: loops_inv_def)
  show ?thesis
    using None ns none inv distinct_registered [OF ok] registered_entries [OF ok]
    by (simp add: InitConsumer_def snapshotConsumers_def InitConsumer_start_cases loops_inv_def
        registered_def consumers_of_def started_loops_def)
qed (simp add: InitConsumer_def)

lemma loops_Publish: "loops_inv s \<Longrightarrow> loops_inv (fst (Publish s name))"
proof -
  have e: "started_loops (ensureConnected a s) = started_loops s" for a
    by (simp add: ensureConnected_def Let_def started_loops_def)
  assume "loops_inv s"
  then have "loops_inv (ensureConnected a s)" for a
    by (simp add: e loops_inv_def registered_def consumers_of_def ensureConnected_simps)
  then show ?thesis using \<open>loops_inv s\<close> by (simp add: Publish_def split: option.splits)
qed

lemma store_step_loops:
  assumes "system_ok s" "loops_inv s" "store_step s oper t"
  shows "loops_inv t"
proof (cases oper)
  case (OpClient a c)
  with assms show ?thesis by (simp add: store_step_def loops_inv_def started_loops_def registered_def)
qed (use assms in \<open>simp_all add: store_step_def loops_AddConsumerN loops_Publish loops_InitConsumer loops_Shutdown\<close>)

definition store_inv :: "'c system \<Rightarrow> bool" where
  "store_inv s \<longleftrightarrow> system_ok s \<and> loops_inv s"

interpretation store: invariant_system s0 store_step "\<lambda>s. store_inv s0 \<longrightarrow> store_inv s" for s0
  by unfold_locales (auto simp: store_inv_def intro: store_step_ok store_step_loops)

lemma newQueueStore_inv:
  assumes new: "newQueueStore conf opts = Inr s" and keys: "distinct (map fst (gm_entries (QueueParams conf)))"
  shows "store_inv s"
proof -
  have "sys_trace s = []" "consumersStarted (sys_store s) = False"
    using newQueueStore_made [OF new] by (auto simp: made_from_def empty_store_def)
  then show ?thesis
    using newQueueStore_ok [OF assms] by (simp add: store_inv_def loops_inv_def started_loops_def)
qed

section \<open>Properties\<close>

definition demo_options :: "nat go_option list" where
  "demo_options = [WithFailHandler (Some (\<lambda>_ _. Returned None))]"

lemma demo_resolved:
  "resolve_options demo_options = defaultOptions\<lparr>failHandler := Some (\<lambda>_ _. Returned None)\<rparr>"
  by (simp add: demo_options_def resolve_options_def)

definition demo_system :: "nat system" where
  "demo_system =
     \<lparr>sys_store = (empty_store sample_config (resolve_options demo_options))
        \<lparr>publishers := Some [(''jobs'', 0), (''plain'', 1)]\<rparr>,
      sys_clients =
        [newPublisherClient ''jobs'' \<lparr>Retry_of = Some \<lparr>Delay = 60 * second, MaxDuration = 3600 * second\<rparr>,
           ConsumerOnly = False\<rparr> sample_config (resolve_options demo_options),
         newPublisherClient ''plain'' \<lparr>Retry_of = None, ConsumerOnly = False\<rparr> sample_config (resolve_options demo_options)],
      sys_trace = []\<rparr>"

lemma demo_new: "newQueueStore sample_config demo_options = Inr demo_system"
proof -
  have v: "validateConfig sample_config (resolve_options demo_options) = None"
    by (simp add: demo_resolved validateConfig_def sample_config_def second_def millisecond_def validateRetryQueue_def)
  have e: "gm_entries (QueueParams sample_config) =
      [(''jobs'', \<lparr>Retry_of = Some \<lparr>Delay = 60 * second, MaxDuration = 3600 * second\<rparr>, ConsumerOnly = False\<rparr>),
       (''plain'', \<lparr>Retry_of = None, ConsumerOnly = False\<rparr>), (''sink'', \<lparr>Retry_of = None, ConsumerOnly = True\<rparr>)]"
    by (simp add: sample_config_def)
  show ?thesis unfolding newQueueStore_def Let_def v e
    by (simp add: addPublisher_add addPublisher_skip demo_system_def empty_store_def gm_put_def gm_set_def gm_make_def)
qed

lemma demo_keys: "distinct (map fst (gm_entries (QueueParams sample_config)))"
  by (simp add: sample_config_def)

lemma reach_perform: "reach s0 store_step s \<Longrightarrow> enabled oper s \<Longrightarrow> reach s0 store_step (perform oper s)"
  by (erule reach_step) (simp add: store_step_def)

lemma demo_ok: "system_ok demo_system"
  by (rule newQueueStore_ok [OF demo_new demo_keys])

lemma demo_params:
  "queue_param demo_system ''sink'' = Some \<lparr>Retry_of = None, ConsumerOnly = True\<rparr>"
  "queue_param demo_system ''plain'' = Some \<lparr>Retry_of = None, ConsumerOnly = False\<rparr>"
  "queue_param demo_system ''other'' = None"
  "consumersStarted (sys_store demo_system) = False" "consumers_of demo_system n = []"
  "length (sys_clients demo_system) = 2"
  by (simp_all add: demo_system_def queue_param_def empty_store_def sample_config_def gm_get_def gm_make_def consumers_of_def)

text \<open>
  C4. The store stays consistent. After a successful \<open>New\<close>, through any sequence of
  \<open>AddConsumerN\<close>, \<open>Publish\<close>, \<open>InitConsumer\<close> and \<open>Shutdown\<close> with the clients'
  goroutines at work in between: every queue that is not consume-only has a publisher; every
  registered address is that of a client of its own queue and role, in the mode the
  configuration gives; and no client is registered twice.
\<close>

theorem store_stays_consistent:
  assumes "newQueueStore conf opts = Inr s0" "distinct (map fst (gm_entries (QueueParams conf)))"
    and "reach s0 store_step s"
  shows "system_ok s"
  using store.inv_reach [OF assms(3)] newQueueStore_inv [OF assms(1,2)] by (simp add: store_inv_def)

theorem store_stays_consistent_witness:
  "system_ok (perform (OpAddConsumerN (\<lambda>_. (None, None)) 0 ''plain'' 2 None) demo_system)"
proof -
  have "reach demo_system store_step (perform (OpAddConsumerN (\<lambda>_. (None, None)) 0 ''plain'' 2 None) demo_system)"
    by (rule reach_perform [OF reach_start]) simp
  from store_stays_consistent [OF demo_new demo_keys this] show ?thesis .
qed

definition demo_running :: "nat system" where
  "demo_running = perform (OpInitConsumer None) (perform (OpAddConsumerN (\<lambda>_. (None, None)) 0 ''plain'' 2 None) demo_system)"

lemma demo_running_facts:
  "sys_store demo_running = (sys_store demo_system)\<lparr>consumers := Some [(''plain'', [2, 3])], consumersStarted := True\<rparr>"
  "length (sys_clients demo_running) = 4" "\<not> closeOnce (client_at demo_running 2)"
  "registered demo_running = {2, 3}" "reach demo_system store_step demo_running"
proof -
  obtain s' err where a: "AddConsumerN (\<lambda>_. (None, None)) demo_system 0 ''plain'' 2 None = (s', err)" by fastforce
  note r = AddConsumerN_registers [OF _ demo_params(2) a, unfolded demo_params, simplified]
  have nn: "consumers (sys_store demo_system) = Some []" by (simp add: demo_system_def empty_store_def gm_make_def)
  have c: "sys_store s' = (sys_store demo_system)\<lparr>consumers := Some [(''plain'', [2, 3])]\<rparr>"
    using r(3) by (simp add: nn gm_put_def gm_set_def copies_def upt_conv_Cons numeral_eq_Suc)
  have i: "sys_store demo_running = (sys_store s')\<lparr>consumersStarted := True\<rparr> \<and> sys_clients demo_running = sys_clients s'"
    by (simp add: demo_running_def a InitConsumer_def guardConsumerStart_def snapshotConsumers_def
        InitConsumer_start_cases c demo_params(4))
  then show st: "sys_store demo_running = (sys_store demo_system)\<lparr>consumers := Some [(''plain'', [2, 3])], consumersStarted := True\<rparr>"
    by (simp add: c)
  show "length (sys_clients demo_running) = 4" using i r(2) by (simp add: demo_params(6) copies_def)
  show "\<not> closeOnce (client_at demo_running 2)"
    using i r(2) by (simp add: nth_append demo_params(6) copies_def consumer_client_def newClient_def)
  show "registered demo_running = {2, 3}"
    by (auto simp: registered_def consumers_of_def st gm_get_def split: if_splits)
  show "reach demo_system store_step demo_running"
    unfolding demo_running_def by (intro reach_perform reach_start) simp_all
qed

text \<open>
  C5. One loop per consumer. In every sequential history after \<open>New\<close>, no client's consumer
  loop is ever started twice; none is started before \<open>InitConsumer\<close> succeeds, and from then
  on exactly the registered clients have one.
\<close>

theorem one_loop_per_consumer:
  assumes "newQueueStore conf opts = Inr s0" "distinct (map fst (gm_entries (QueueParams conf)))"
    and "reach s0 store_step s"
  shows "distinct (started_loops s) \<and>
    set (started_loops s) = (if consumersStarted (sys_store s) then registered s else {})"
  using store.inv_reach [OF assms(3)] newQueueStore_inv [OF assms(1,2)] by (simp add: store_inv_def loops_inv_def)

theorem one_loop_per_consumer_witness:
  "consumersStarted (sys_store demo_running) \<and> set (started_loops demo_running) = {2, 3} \<and> distinct (started_loops demo_running)"
  using one_loop_per_consumer [OF demo_new demo_keys demo_running_facts(5)]
  by (simp add: demo_running_facts(1,4))

text \<open>
  C23. What \<open>AddConsumerN\<close> does. It succeeds exactly when consumers are not started and the
  queue is configured. Then it appends \<open>parallelism\<close> new clients (one when that is not
  positive) to that queue's consumers, each with the given callback and context, and touches
  no other queue and no old client; otherwise it reports \<open>ErrConsumersAlreadyStarted\<close> or
  \<open>ErrQueueNotFound\<close> and leaves everything as it was.
\<close>

theorem AddConsumerN_outcome:
  assumes "system_ok s" "AddConsumerN answers s ctx name par cb = (s', err)"
  shows "(err = None \<longleftrightarrow> \<not> consumersStarted (sys_store s) \<and> queue_param s name \<noteq> None) \<and>
    (\<forall>e. err = Some e \<longrightarrow> s' = s \<and> (errors_is e ErrConsumersAlreadyStarted \<or> errors_is e ErrQueueNotFound)) \<and>
    (err = None \<longrightarrow>
       (\<forall>n. consumers_of s' n = consumers_of s n @
          (if n = name then [length (sys_clients s)..<length (sys_clients s) + (if par \<le> 0 then 1 else nat par)] else [])) \<and>
       take (length (sys_clients s)) (sys_clients s') = sys_clients s \<and>
       (\<forall>c \<in> set (drop (length (sys_clients s)) (sys_clients s')).
          callback c = cb \<and> consumerDone c = Some ctx \<and> consumer_ok s' name c))"
proof (cases "consumersStarted (sys_store s) \<or> queue_param s name = None")
  case True
  then show ?thesis using assms(2)
    by (cases "consumersStarted (sys_store s)") (auto simp: AddConsumerN_refused)
next
  case False
  then obtain p where p: "\<not> consumersStarted (sys_store s)" "queue_param s name = Some p" by auto
  note r = AddConsumerN_registers [OF p assms(2)]
  have nn: "consumers (sys_store s) \<noteq> None" "storeConsumeHeadersExtractor (sys_store s) \<noteq> None"
    using assms(1) by (simp_all add: system_ok_def map_ok_def)
  have "queue_param s' = queue_param s" by (simp add: queue_param_def r(3) fun_eq_iff)
  then have "consumer_ok s' name (consumer_client s ctx p name cb)"
    using p nn(2) by (simp add: consumer_ok_def consumer_client_def newClient_def)
  then show ?thesis
    using p by (auto simp: r(1,2) consumers_of_def r(3) gm_put_get [OF nn(1)] copies_def consumer_client_def)
qed

theorem AddConsumerN_outcome_witness:
  "snd (AddConsumerN (\<lambda>_. (None, None)) demo_system 0 ''other'' 2 None) \<noteq> None \<and>
   consumers_of (fst (AddConsumerN (\<lambda>_. (None, None)) demo_system 0 ''plain'' (-1) None)) ''plain'' = [2]"
  using AddConsumerN_outcome [OF demo_ok surjective_pairing, of "\<lambda>_. (None, None)" 0 "''other''" 2 None]
    AddConsumerN_outcome [OF demo_ok surjective_pairing, of "\<lambda>_. (None, None)" 0 "''plain''" "-1" None]
  by (simp add: demo_params)

lemma Publish_where:
  assumes "system_ok s" "Publish s name = (s', r)"
  shows "case queue_param s name of
      None \<Rightarrow> s' = s \<and> (\<exists>e. r = Inl e \<and> errors_is e ErrQueueNotFound)
    | Some p \<Rightarrow>
        if ConsumerOnly p then s' = s \<and> (\<exists>e. r = Inl e \<and> errors_is e ErrQueueConsumerOnly)
        else \<exists>a. r = Inr a \<and> queueName (client_at s' a) = name \<and> retry (client_at s' a) = Retry_of p \<and>
               startOnce (client_at s' a) \<and>
               sys_trace s' = sys_trace s @ (if startOnce (client_at s a) then []
                 else [GoReconnect a (brokerURL (client_at s a))]) \<and>
               Publish s' name = (s', Inr a)"
proof (cases "queue_param s name")
  case None
  then show ?thesis using assms(2) by (auto simp: Publish_def)
next
  case (Some p)
  show ?thesis
  proof (cases "ConsumerOnly p")
    case True
    then show ?thesis using assms(2) Some by (auto simp: Publish_def)
  next
    case False
    then obtain a where a: "publisher_of s name = Some a" using assms(1) Some by (auto simp: system_ok_def)
    then have ok: "a < length (sys_clients s)" "publisher_ok s name (client_at s a)"
      using assms(1) by (simp_all add: system_ok_def)
    have s': "s' = ensureConnected a s" "r = Inr a"
      using assms(2) Some False a by (simp_all add: Publish_def publisher_of_def)
    have c: "client_at s' a = (client_at s a)\<lparr>startOnce := True\<rparr>"
      using ensureConnected_simps(3) [OF ok(1), of a] by (simp add: s'(1))
    have again: "Publish s' name = (s', Inr a)"
      using Some False a ensureConnected_simps(1) [of a s] c
      by (simp add: Publish_def publisher_of_def s'(1) [symmetric] queue_param_def) (simp add: ensureConnected_def)
    have "sys_trace s' = sys_trace s @ (if startOnce (client_at s a) then [] else [GoReconnect a (brokerURL (client_at s a))])"
      by (simp add: s'(1) ensureConnected_def Let_def)
    then show ?thesis using Some False ok(2) c s'(2) again by (simp add: publisher_ok_def)
  qed
qed

text \<open>
  C24. Where \<open>Publish\<close> goes. An unknown queue and a consume-only queue are refused with
  their sentinels and nothing happens; for any other queue the publisher of that very queue is
  found, its reconnect loop is started if this is the first publish and never again, and the
  message goes to it.
\<close>

theorem Publish_routes:
  assumes "system_ok s" "Publish s name = (s', r)"
  shows "case queue_param s name of
      None \<Rightarrow> s' = s \<and> (\<exists>e. r = Inl e \<and> errors_is e ErrQueueNotFound)
    | Some p \<Rightarrow>
        if ConsumerOnly p then s' = s \<and> (\<exists>e. r = Inl e \<and> errors_is e ErrQueueConsumerOnly)
        else \<exists>a. r = Inr a \<and> queueName (client_at s' a) = name \<and> retry (client_at s' a) = Retry_of p \<and>
               startOnce (client_at s' a) \<and>
               sys_trace s' = sys_trace s @ (if startOnce (client_at s a) then []
                 else [GoReconnect a (brokerURL (client_at s a))]) \<and>
               Publish s' name = (s', Inr a)"
  by (rule Publish_where [OF assms])

theorem Publish_routes_witness:
  "(\<exists>e. snd (Publish demo_system ''other'') = Inl e \<and> errors_is e ErrQueueNotFound) \<and>
   (\<exists>e. snd (Publish demo_system ''sink'') = Inl e \<and> errors_is e ErrQueueConsumerOnly) \<and>
   (\<exists>a. snd (Publish demo_system ''plain'') = Inr a)"
  using Publish_routes [OF demo_ok surjective_pairing, of "''other''"]
    Publish_routes [OF demo_ok surjective_pairing, of "''sink''"]
    Publish_routes [OF demo_ok surjective_pairing, of "''plain''"]
  by (auto simp: demo_params)

lemma snapshot_count: "system_ok s \<Longrightarrow> snd (snapshotConsumers s) = 0 \<longleftrightarrow> registered s = {}"
  by (simp add: snapshotConsumers_def registered_entries)

text \<open>
  When \<open>InitConsumer\<close> succeeds. Exactly if it has not succeeded before, the context is
  live and some consumer is registered; a refusal changes nothing and names the reason, in the
  order the code checks them; after a success every further \<open>InitConsumer\<close> and
  \<open>AddConsumerN\<close> is refused.
\<close>

theorem InitConsumer_outcome:
  assumes "system_ok s" "InitConsumer s ctxErr = (s', err)"
  shows "(err = None \<longleftrightarrow> \<not> consumersStarted (sys_store s) \<and> ctxErr = None \<and> registered s \<noteq> {}) \<and>
    (\<forall>e. err = Some e \<longrightarrow> s' = s \<and>
       (if consumersStarted (sys_store s) then errors_is e ErrConsumersAlreadyStarted
        else case ctxErr of Some c \<Rightarrow> errors_is e ErrContextCanceledOnConsumerStart \<and> errors_is_ctx e c
           | None \<Rightarrow> errors_is e ErrNoConsumersRegistered)) \<and>
    (err = None \<longrightarrow>
       InitConsumer s' ctxErr' = (s', Some (Sentinel ErrConsumersAlreadyStarted)) \<and>
       AddConsumerN answers s' ctx name par cb = (s', Some (Sentinel ErrConsumersAlreadyStarted)))"
proof (cases "consumersStarted (sys_store s) \<or> ctxErr \<noteq> None")
  case True
  then show ?thesis using assms(2)
    by (cases "consumersStarted (sys_store s)") (auto simp: InitConsumer_def guardConsumerStart_def)
next
  case False
  then have "InitConsumer s ctxErr = InitConsumer_start (snapshotConsumers s) s"
    by (simp add: InitConsumer_def guardConsumerStart_def)
  moreover obtain cs n where sn: "snapshotConsumers s = (cs, n)" by fastforce
  ultimately have i: "InitConsumer_start (cs, n) s = (s', err)" using assms(2) by simp
  have n: "n = 0 \<longleftrightarrow> registered s = {}" using snapshot_count [OF assms(1)] by (simp add: sn)
  show ?thesis
  proof (cases "registered s = {}")
    case True
    then show ?thesis using False i n by (auto simp: InitConsumer_start_cases)
  next
    case r: False
    then have r': "err = None" "consumersStarted (sys_store s')"
      using False i n by (auto simp: InitConsumer_start_cases)
    then have "InitConsumer s' ctxErr' = (s', Some (Sentinel ErrConsumersAlreadyStarted))"
      by (simp add: InitConsumer_def guardConsumerStart_def)
    then show ?thesis using r r' False AddConsumerN_refused(1) [OF r'(2)] by simp
  qed
qed

theorem InitConsumer_outcome_witness:
  "\<exists>e. snd (InitConsumer demo_system None) = Some e \<and> errors_is e ErrNoConsumersRegistered"
proof -
  have "registered demo_system = {}" by (simp add: registered_def demo_params)
  then show ?thesis
    using InitConsumer_outcome [OF demo_ok surjective_pairing, of None None "\<lambda>_. (None, None)" 0 "[]" 0 None]
    by (auto simp: demo_params)
qed

lemma Shutdown_client:
  assumes "system_ok s" and a: "\<exists>n. publisher_of s n = Some a \<or> a \<in> set (consumers_of s n)"
  shows "client_at (fst (Shutdown env s)) a = fst (close (se_answers env a) (client_at s a))"
proof -
  have "a < length (sys_clients s)" using assms by (auto simp: system_ok_def)
  then have "client_at (fst (Shutdown env s)) a = (if \<exists>n. publisher_of s n = Some a \<or> a \<in> set (consumers_of s n)
      then fst (close (se_answers env a) (client_at s a)) else client_at s a)"
    using Shutdown_state [OF assms(1), of env] by blast
  then show ?thesis unfolding if_P [OF a] .
qed

text \<open>
  C19. What \<open>Shutdown\<close> closes. Every publisher and every registered consumer, whatever the
  context and the library answer: its \<open>closeOnce\<close> is spent, and unless it was closed before
  its \<open>done\<close> channel is closed and it is not ready. It reports an error unless every close
  succeeded with the context live, the handlers finished and the context is live at the end; an
  error of the context is always in the result. A second \<open>Shutdown\<close> makes no library call.
\<close>

theorem Shutdown_closes_everything:
  assumes "system_ok s" "Shutdown env s = (s', results)"
  shows "(\<forall>a. (\<exists>n. publisher_of s n = Some a \<or> a \<in> set (consumers_of s n)) \<longrightarrow>
       closeOnce (client_at s' a) \<and>
       (\<not> closeOnce (client_at s a) \<longrightarrow> done_closed (client_at s' a) \<and> \<not> isReady (client_at s' a))) \<and>
    (None \<in> set results \<longleftrightarrow>
       se_inflight env = 0 \<and> se_ctxEnd env = None \<and>
       (\<forall>a n. publisher_of s n = Some a \<or> a \<in> set (consumers_of s n) \<longrightarrow>
          se_ctxAt env a = None \<and> close_err (se_answers env) s a = None)) \<and>
    (\<forall>c e. se_ctxEnd env = Some c \<and> Some e \<in> set results \<longrightarrow> errors_is_ctx e c) \<and>
    library_calls (fst (Shutdown env' s')) = library_calls s'"
proof -
  let ?order = "close_order (fst (snapshotClients s)) (snd (snapshotClients s))"
  let ?err = "snd (closeClients env (fst (snapshotClients s)) (snd (snapshotClients s)) s)"
  have s': "s' = fst (Shutdown env s)" by (simp add: assms(2))
  have res: "results = map (Shutdown_result (se_ctxEnd env) ?err) (waitInflight (se_inflight env) (se_ctxWait env))"
    using assms(2) by (simp add: Shutdown_def split_beta)
  note st = Shutdown_state [OF assms(1), of env, folded s']
  have closed: "client_at s' a = fst (close (se_answers env a) (client_at s a))"
    if "\<exists>n. publisher_of s n = Some a \<or> a \<in> set (consumers_of s n)" for a
    unfolding s' by (rule Shutdown_client [OF assms(1) that])
  have 1: "closeOnce (client_at s' a) \<and>
      (\<not> closeOnce (client_at s a) \<longrightarrow> done_closed (client_at s' a) \<and> \<not> isReady (client_at s' a))"
    if "\<exists>n. publisher_of s n = Some a \<or> a \<in> set (consumers_of s n)" for a
    using closed [OF that] close_open [of "client_at s a" "se_answers env a"] by (simp add: client_close.shuts)
  have "?err = None \<longleftrightarrow>
      (\<forall>a \<in> order_addr ` set ?order. se_ctxAt env a = None \<and> close_err (se_answers env) s a = None)"
    using close_fold_error [OF Shutdown_fold [of env s]] by simp
  also have "\<dots> \<longleftrightarrow> (\<forall>a n. publisher_of s n = Some a \<or> a \<in> set (consumers_of s n) \<longrightarrow>
      se_ctxAt env a = None \<and> close_err (se_answers env) s a = None)"
    unfolding close_order_addrs [OF assms(1)] by blast
  finally have err: "?err = None \<longleftrightarrow> (\<forall>a n. publisher_of s n = Some a \<or> a \<in> set (consumers_of s n) \<longrightarrow>
      se_ctxAt env a = None \<and> close_err (se_answers env) s a = None)" .
  have "None \<in> set results \<longleftrightarrow> se_inflight env = 0 \<and> se_ctxEnd env = None \<and> ?err = None"
    unfolding res by (cases ?err; cases "se_ctxWait env"; cases "se_ctxEnd env")
      (auto simp: waitInflight_def Shutdown_result_def set_select)
  note 2 = this [unfolded err]
  have 3: "errors_is_ctx e c" if "se_ctxEnd env = Some c" "Some e \<in> set results" for c e
    using that unfolding res by (auto simp: Shutdown_result_def Let_def split: option.splits if_splits)
  have regs: "publisher_of s' = publisher_of s" "consumers_of s' = consumers_of s"
    using st by (simp_all add: publisher_of_def consumers_of_def fun_eq_iff)
  have "\<forall>x \<in> set (close_order (fst (snapshotClients s')) (snd (snapshotClients s'))). closeOnce (client_at s' (order_addr x))"
    using close_order_addrs [OF Shutdown_ok [OF assms(1), of env], folded s'] 1 unfolding regs by blast
  note 4 = close_fold_calls [OF Shutdown_fold [of env' s'] this]
  show ?thesis
    by (intro conjI) (use 1 in \<open>intro allI impI, blast\<close>, fact 2, use 3 in \<open>intro allI impI, blast\<close>, use 4 in blast)
qed

theorem Shutdown_closes_everything_witness:
  "closeOnce (client_at (fst (Shutdown \<lparr>se_ctxAt = \<lambda>_. None, se_answers = \<lambda>_. (None, None), se_inflight = 0,
     se_ctxWait = None, se_ctxEnd = None\<rparr> demo_system)) 1)"
proof -
  have "publisher_of demo_system ''plain'' = Some 1" by (simp add: publisher_of_def demo_system_def gm_get_def)
  then show ?thesis using Shutdown_closes_everything [OF demo_ok surjective_pairing] by blast
qed

end
