(* ===== verification/Registry.thy ===== *)
theory Registry
  imports StoreProps
begin

text \<open>
  Registration against start. \<open>AddConsumerN\<close> and \<open>InitConsumer\<close> may run in several
  goroutines at once; they share the store through \<open>mu\<close> and the atomic flag
  \<open>consumersStarted\<close>. Each goroutine runs one call, cut where another can interfere: between
  the first check of \<open>AddConsumerN\<close> and its critical section, before its deferred rollback, and
  between the guard, the snapshot and the compare-and-swap of \<open>InitConsumer\<close>.
\<close>

section \<open>The machine\<close>

datatype 'c call =
    CallAdd ctx_id queue_name int "'c consumer_handler option"
  | CallInit "ctx_error option"

datatype gpc =
    GIdle
  | GCommit queue_name "addr list"
  | GRollback "addr list" go_error
  | GSnapshot
  | GStart "(queue_name, addr list) gomap \<times> nat"
  | GAdded "addr list" "go_error option" \<comment> \<open>\<open>AddConsumerN\<close> returned\<close>
  | GInited "go_error option" \<comment> \<open>\<open>InitConsumer\<close> returned\<close>

record 'c registry =
  rg_sys :: "'c system"
  rg_calls :: "nat \<Rightarrow> 'c call"
  rg_pc :: "nat \<Rightarrow> gpc"

datatype g_label = AddBegin | AddCommit | AddRollback close_answers | InitGuard | InitSnapshot | InitStart

abbreviation move :: "'c registry \<Rightarrow> nat \<Rightarrow> gpc \<Rightarrow> 'c system \<Rightarrow> 'c registry" where
  "move g i pc s \<equiv> g\<lparr>rg_sys := s, rg_pc := (rg_pc g)(i := pc)\<rparr>"

inductive registry_step :: "'c registry \<Rightarrow> nat \<times> g_label \<Rightarrow> 'c registry \<Rightarrow> bool" where
  g_add_begin:
  "rg_pc g i = GIdle \<Longrightarrow> rg_calls g i = CallAdd ctx name par cb \<Longrightarrow>
     AddConsumerN_begin (rg_sys g) ctx name par cb = (s, clients, res) \<Longrightarrow>
     registry_step g (i, AddBegin)
       (move g i (case res of None \<Rightarrow> GCommit name clients | Some err \<Rightarrow> GRollback clients err) s)"
| g_add_commit:
  "rg_pc g i = GCommit name clients \<Longrightarrow> AddConsumerN_commit name clients (rg_sys g) = (s, res) \<Longrightarrow>
     registry_step g (i, AddCommit)
       (move g i (case res of None \<Rightarrow> GAdded clients None | Some err \<Rightarrow> GRollback clients err) s)"
| g_add_rollback:
  "rg_pc g i = GRollback clients err \<Longrightarrow>
     registry_step g (i, AddRollback answers)
       (move g i (GAdded clients (Some err)) (close_all answers clients (rg_sys g)))"
| g_init_guard:
  "rg_pc g i = GIdle \<Longrightarrow> rg_calls g i = CallInit ctxErr \<Longrightarrow>
     registry_step g (i, InitGuard)
       (move g i (case guardConsumerStart (rg_sys g) ctxErr of None \<Rightarrow> GSnapshot | Some err \<Rightarrow> GInited (Some err))
          (rg_sys g))"
| g_init_snapshot:
  "rg_pc g i = GSnapshot \<Longrightarrow>
     registry_step g (i, InitSnapshot) (move g i (GStart (snapshotConsumers (rg_sys g))) (rg_sys g))"
| g_init_start:
  "rg_pc g i = GStart snap \<Longrightarrow> InitConsumer_start snap (rg_sys g) = (s, res) \<Longrightarrow>
     registry_step g (i, InitStart) (move g i (GInited res) s)"

inductive_cases registry_stepE: "registry_step g l h"

inductive_simps registry_step_simps:
  "registry_step g (i, AddBegin) h" "registry_step g (i, AddCommit) h" "registry_step g (i, AddRollback answers) h"
  "registry_step g (i, InitGuard) h" "registry_step g (i, InitSnapshot) h" "registry_step g (i, InitStart) h"

definition registry_start :: "'c system \<Rightarrow> (nat \<Rightarrow> 'c call) \<Rightarrow> 'c registry" where
  "registry_start s calls = \<lparr>rg_sys = s, rg_calls = calls, rg_pc = (\<lambda>_. GIdle)\<rparr>"

text \<open>A call alone is the sequential operation.\<close>

lemma run_ends:
  "run registry_step g ls h \<Longrightarrow> rg_sys h = s \<Longrightarrow> rg_pc h i = GAdded clients err \<Longrightarrow>
     \<exists>ls h clients. run registry_step g ls h \<and> rg_sys h = s \<and> rg_pc h i = GAdded clients err"
  by blast

lemma AddConsumerN_steps:
  assumes "rg_pc g i = GIdle" "rg_calls g i = CallAdd ctx name par cb"
    and "AddConsumerN answers (rg_sys g) ctx name par cb = (s, err)"
  shows "\<exists>ls h clients. run registry_step g ls h \<and> rg_sys h = s \<and> rg_pc h i = GAdded clients err"
proof -
  obtain t clients res where b: "AddConsumerN_begin (rg_sys g) ctx name par cb = (t, clients, res)"
    by (cases "AddConsumerN_begin (rg_sys g) ctx name par cb") auto
  show ?thesis
  proof (cases res)
    case (Some e)
    have r: "run registry_step g [(i, AddBegin), (i, AddRollback answers)]
        (move (move g i (GRollback clients e) t) i (GAdded clients (Some e)) (close_all answers clients t))"
      using assms b Some by (simp add: registry_step_simps)
    show ?thesis by (rule run_ends [OF r]) (use assms(3) b Some in \<open>simp_all add: AddConsumerN_def\<close>)
  next
    case None
    obtain u res' where c: "AddConsumerN_commit name clients t = (u, res')" by fastforce
    show ?thesis
    proof (cases res')
      case None
      have r: "run registry_step g [(i, AddBegin), (i, AddCommit)]
          (move (move g i (GCommit name clients) t) i (GAdded clients None) u)"
        using assms b c \<open>res = None\<close> None by (simp add: registry_step_simps)
      show ?thesis
        by (rule run_ends [OF r]) (use assms(3) b c None \<open>res = None\<close> in \<open>simp_all add: AddConsumerN_def\<close>)
    next
      case (Some e)
      have r: "run registry_step g [(i, AddBegin), (i, AddCommit), (i, AddRollback answers)]
          (move (move (move g i (GCommit name clients) t) i (GRollback clients e) u) i
             (GAdded clients (Some e)) (close_all answers clients u))"
        using assms b c \<open>res = None\<close> Some by (simp add: registry_step_simps)
      show ?thesis
        by (rule run_ends [OF r]) (use assms(3) b c Some \<open>res = None\<close> in \<open>simp_all add: AddConsumerN_def\<close>)
    qed
  qed
qed

section \<open>At most one start\<close>

definition start_inv :: "'c registry \<Rightarrow> bool" where
  "start_inv g \<longleftrightarrow>
     (\<forall>i. rg_pc g i = GInited None \<longrightarrow> consumersStarted (sys_store (rg_sys g))) \<and>
     (\<forall>i j. rg_pc g i = GInited None \<longrightarrow> rg_pc g j = GInited None \<longrightarrow> i = j)"

lemma started_kept:
  "AddConsumerN_begin s ctx name par cb = (t, clients, res) \<Longrightarrow> consumersStarted (sys_store s) \<Longrightarrow> t = s \<and> clients = [] \<and> res \<noteq> None"
  "AddConsumerN_commit name clients s = (t, res') \<Longrightarrow> consumersStarted (sys_store s) \<Longrightarrow> t = s \<and> res' \<noteq> None"
  by (auto simp: AddConsumerN_begin_def AddConsumerN_commit_def)

lemma close_all_store: "sys_store (close_all answers clients s) = sys_store s"
  unfolding close_all_def by (induction clients arbitrary: s) (simp_all add: close_at_simps)

lemma InitConsumer_start_None:
  "InitConsumer_start (cs, n) s = (t, None) \<Longrightarrow> \<not> consumersStarted (sys_store s) \<and> consumersStarted (sys_store t)"
  by (auto simp: InitConsumer_start_cases split: if_splits)

lemma InitConsumer_start_Some: "InitConsumer_start (cs, n) s = (t, Some e) \<Longrightarrow> t = s"
  by (auto simp: InitConsumer_start_cases split: if_splits)

lemma start_inv_move:
  assumes "start_inv g" "rg_pc h = (rg_pc g)(i := pc)" "pc \<noteq> GInited None"
    and "consumersStarted (sys_store (rg_sys g)) \<longrightarrow> consumersStarted (sys_store (rg_sys h))"
  shows "start_inv h"
  using assms by (auto simp: start_inv_def)

lemma start_inv_step:
  assumes step: "registry_step g l h" and inv: "start_inv g"
  shows "start_inv h"
  using step
proof (cases rule: registry_step.cases)
  case (g_init_start i snap s res)
  obtain cs n where snap: "snap = (cs, n)" by (cases snap)
  show ?thesis
  proof (cases res)
    case None
    then have "\<not> consumersStarted (sys_store (rg_sys g))" "consumersStarted (sys_store s)"
      using InitConsumer_start_None g_init_start snap by blast+
    then show ?thesis using inv g_init_start None by (simp add: start_inv_def)
  next
    case (Some e)
    then have "s = rg_sys g" using InitConsumer_start_Some g_init_start snap by blast
    then show ?thesis using start_inv_move [OF inv, of h i "GInited (Some e)"] g_init_start Some by simp
  qed
next
  case (g_add_begin i ctx name par cb s clients res)
  then show ?thesis
    by (intro start_inv_move [OF inv]) (auto dest: started_kept split: option.splits)
next
  case (g_add_commit i name clients s res)
  then show ?thesis
    by (intro start_inv_move [OF inv]) (auto dest: started_kept split: option.splits)
next
  case (g_init_guard i ctxErr)
  then show ?thesis by (intro start_inv_move [OF inv]) (auto split: option.splits)
qed (rule start_inv_move [OF inv], simp, simp, simp add: close_all_store)+

lemma start_inv_start: "start_inv (registry_start s calls)"
  by (simp add: start_inv_def registry_start_def)

interpretation starts: invariant_system "registry_start s calls" registry_step start_inv for s calls
  by unfold_locales (blast intro: start_inv_start start_inv_step)+

section \<open>Rolled back clients\<close>

text \<open>The clients a call has made and not handed to the registry.\<close>

fun owned :: "gpc \<Rightarrow> addr set" where
  "owned (GCommit _ cl) = set cl"
| "owned (GRollback cl _) = set cl"
| "owned (GAdded cl (Some _)) = set cl"
| "owned _ = {}"

definition owner_inv :: "'c registry \<Rightarrow> bool" where
  "owner_inv g \<longleftrightarrow>
     consumers (sys_store (rg_sys g)) \<noteq> None \<and>
     (\<forall>a \<in> registered (rg_sys g). a < length (sys_clients (rg_sys g))) \<and>
     (\<forall>i. \<forall>a \<in> owned (rg_pc g i). a < length (sys_clients (rg_sys g)) \<and> a \<notin> registered (rg_sys g)) \<and>
     (\<forall>i j. i \<noteq> j \<longrightarrow> owned (rg_pc g i) \<inter> owned (rg_pc g j) = {}) \<and>
     (\<forall>i cl e. rg_pc g i = GAdded cl (Some e) \<longrightarrow> (\<forall>a \<in> set cl. closeOnce (client_at (rg_sys g) a)))"

lemma close_all_clients:
  "length (sys_clients (close_all answers cl s)) = length (sys_clients s) \<and>
   (\<forall>a < length (sys_clients s). closeOnce (client_at (close_all answers cl s) a) \<longleftrightarrow> closeOnce (client_at s a) \<or> a \<in> set cl)"
  unfolding close_all_def
proof (induction cl arbitrary: s)
  case (Cons b cl)
  have "closeOnce (client_at (fst (close_at answers b s)) a) \<longleftrightarrow> closeOnce (client_at s a) \<or> a = b"
    if "a < length (sys_clients s)" for a
    using that client_close.shuts by (cases "a = b") (simp_all add: close_at_simps)
  with Cons.IH [of "fst (close_at answers b s)"] show ?case by (auto simp: close_at_simps(2))
qed simp

lemma AddConsumerN_begin_cases:
  assumes "AddConsumerN_begin s ctx name par cb = (t, cl, res)"
  shows "sys_store t = sys_store s \<and>
    (\<exists>new. sys_clients t = sys_clients s @ new \<and> set cl \<subseteq> {length (sys_clients s)..<length (sys_clients t)}) \<and>
    started_loops t = started_loops s \<and>
    (\<not> consumersStarted (sys_store s) \<and> queue_param s name \<noteq> None \<longrightarrow> res = None \<and> cl \<noteq> [])"
proof (cases "consumersStarted (sys_store s) \<or> queue_param s name = None")
  case True
  then show ?thesis using assms by (auto simp: AddConsumerN_begin_def split: if_splits)
next
  case False
  then obtain p where p: "queue_param s name = Some p" by auto
  define u where "u = emit [QueueLog Info (''adding '' @ append_int (int (copies par)) 1 @ '' handlers for queue '' @ name) None]
    (if par \<le> 0 then emit [QueueLog Warn (''parallelism <= 0 for queue '' @ name @ '', using 1'') None] s else s)"
  have u: "sys_store u = sys_store s" "sys_clients u = sys_clients s" "queue_param u name = Some p"
    by (simp_all add: u_def p)
  have "(t, cl, res) = addConsumerClients (copies par) u ctx name cb []"
    using False assms unfolding AddConsumerN_begin_def by (simp add: copies_def u_def Let_def split: if_splits)
  moreover have "started_loops u = started_loops s" by (simp add: u_def started_loops_def)
  moreover have "0 < copies par" by (simp add: copies_def)
  ultimately show ?thesis using u
    by (auto simp: addConsumerClients_closed [OF u(3)] started_loops_def no_loops_in_reconnects comp_def)
qed

lemma registered_same: "consumers (sys_store t) = consumers (sys_store s) \<Longrightarrow> registered t = registered s"
  by (simp add: registered_def consumers_of_def)

lemma registered_commit:
  assumes "AddConsumerN_commit name cl s = (t, None)" "consumers (sys_store s) \<noteq> None"
  shows "registered t = registered s \<union> set cl \<and> sys_clients t = sys_clients s \<and> consumers (sys_store t) \<noteq> None"
proof -
  have t: "sys_store t = (sys_store s)\<lparr>consumers := gm_put name (consumers_of s name @ cl) (consumers (sys_store s))\<rparr>"
      "sys_clients t = sys_clients s"
    using assms(1) by (auto simp: AddConsumerN_commit_def split: if_splits)
  have "consumers_of t n = (if n = name then consumers_of s name @ cl else consumers_of s n)" for n
    by (simp add: consumers_of_def t(1) gm_put_get [OF assms(2)])
  then have "a \<in> set (consumers_of t n) \<longleftrightarrow> a \<in> set (consumers_of s n) \<or> n = name \<and> a \<in> set cl" for a n by simp
  then have "registered t = registered s \<union> set cl" by (auto simp: registered_def)
  then show ?thesis using t assms(2) by (auto simp: gm_put_def gm_set_def split: option.splits)
qed

text \<open>A step that changes what a goroutine owns without touching the registry.\<close>

lemma owner_inv_move:
  assumes inv: "owner_inv g"
    and h: "rg_pc h = (rg_pc g)(i := pc)" "rg_sys h = s"
    and store: "consumers (sys_store s) = consumers (sys_store (rg_sys g))"
    and len: "length (sys_clients (rg_sys g)) \<le> length (sys_clients s)"
    and kept: "\<And>a. a < length (sys_clients (rg_sys g)) \<Longrightarrow> closeOnce (client_at (rg_sys g) a) \<Longrightarrow> closeOnce (client_at s a)"
    and own: "owned pc \<subseteq> owned (rg_pc g i) \<union> {length (sys_clients (rg_sys g))..<length (sys_clients s)}"
    and closed: "\<And>cl e a. pc = GAdded cl (Some e) \<Longrightarrow> a \<in> set cl \<Longrightarrow> closeOnce (client_at s a)"
  shows "owner_inv h"
proof -
  have reg: "registered s = registered (rg_sys g)" by (rule registered_same [OF store])
  have old: "a < length (sys_clients (rg_sys g))" "a \<notin> registered (rg_sys g)" if "a \<in> owned (rg_pc g j)" for a j
    using inv that by (auto simp: owner_inv_def)
  have rlen: "a < length (sys_clients (rg_sys g))" if "a \<in> registered (rg_sys g)" for a
    using inv that by (auto simp: owner_inv_def)
  have 1: "a < length (sys_clients s) \<and> a \<notin> registered s" if "a \<in> owned (((rg_pc g)(i := pc)) j)" for a j
  proof (cases "a < length (sys_clients (rg_sys g))")
    case True
    then have "a \<in> owned (rg_pc g j)" using that own by (cases "j = i") auto
    then show ?thesis using old len reg by force
  next
    case False
    then show ?thesis using that own old [of a j] rlen [of a] reg by (cases "j = i") auto
  qed
  have 2: "owned (((rg_pc g)(i := pc)) j) \<inter> owned (((rg_pc g)(i := pc)) k) = {}" if "j \<noteq> k" for j k
  proof -
    have d: "owned (rg_pc g j) \<inter> owned (rg_pc g k) = {}" if "j \<noteq> k" for j k
      using inv that by (simp add: owner_inv_def)
    have o: "owned pc \<inter> owned (rg_pc g k) = {}" if "k \<noteq> i" for k
      using own d [of i k] that old by fastforce
    show ?thesis using that d [OF that] o [of j] o [of k] by (cases "j = i"; cases "k = i") auto
  qed
  have 3: "closeOnce (client_at s a)" if "((rg_pc g)(i := pc)) j = GAdded cl (Some e)" "a \<in> set cl" for j cl e a
  proof (cases "j = i")
    case True
    then show ?thesis using closed that by simp
  next
    case False
    then have j: "rg_pc g j = GAdded cl (Some e)" using that by simp
    then have "closeOnce (client_at (rg_sys g) a)" using inv that(2) unfolding owner_inv_def by blast
    then show ?thesis using kept old [of a j] j that(2) by simp
  qed
  show ?thesis
    unfolding owner_inv_def h reg store
  proof (intro conjI)
    show "\<forall>a \<in> registered (rg_sys g). a < length (sys_clients s)" using rlen len by (meson less_le_trans)
    show "consumers (sys_store (rg_sys g)) \<noteq> None" using inv by (simp add: owner_inv_def)
  qed (use 1 2 3 reg in blast)+
qed

lemma owner_inv_commit:
  assumes inv: "owner_inv g" and pc: "rg_pc g i = GCommit name cl"
    and commit: "AddConsumerN_commit name cl (rg_sys g) = (s, None)"
    and h: "rg_pc h = (rg_pc g)(i := GAdded cl None)" "rg_sys h = s"
  shows "owner_inv h"
proof -
  have nn: "consumers (sys_store (rg_sys g)) \<noteq> None" using inv by (simp add: owner_inv_def)
  note c = registered_commit [OF commit nn]
  have mine: "owned (rg_pc g i) = set cl" by (simp add: pc)
  have old: "a < length (sys_clients (rg_sys g))" "a \<notin> registered (rg_sys g)" if "a \<in> owned (rg_pc g j)" for a j
    using inv that by (auto simp: owner_inv_def)
  have disj: "owned (rg_pc g j) \<inter> set cl = {}" if "j \<noteq> i" for j
    using inv that mine unfolding owner_inv_def by blast
  have 1: "a < length (sys_clients s) \<and> a \<notin> registered s" if "a \<in> owned (rg_pc h j)" for a j
  proof -
    have j: "j \<noteq> i" "a \<in> owned (rg_pc g j)" using that by (auto simp: h split: if_splits)
    then show ?thesis using old [OF j(2)] disj [OF j(1)] c by auto
  qed
  have 2: "a < length (sys_clients s)" if "a \<in> registered s" for a
    using that c inv old [of a i] mine by (auto simp: owner_inv_def)
  have 3: "owned (rg_pc h j) \<inter> owned (rg_pc h k) = {}" if "j \<noteq> k" for j k
    using inv that by (auto simp: owner_inv_def h)
  have 4: "closeOnce (client_at s a)" if "rg_pc h j = GAdded dl (Some e)" "a \<in> set dl" for j dl e a
  proof -
    have "rg_pc g j = GAdded dl (Some e)" using that(1) by (simp add: h split: if_splits)
    then show ?thesis using inv that(2) c unfolding owner_inv_def by metis
  qed
  show ?thesis unfolding owner_inv_def h(2) using 1 2 3 4 c by blast
qed

lemma owner_inv_step:
  assumes step: "registry_step g l h" and inv: "owner_inv g"
  shows "owner_inv h"
  using step
proof (cases rule: registry_step.cases)
  case (g_add_begin i ctx name par cb s clients res)
  note b = AddConsumerN_begin_cases [OF g_add_begin(5)]
  then have "client_at s a = client_at (rg_sys g) a" if "a < length (sys_clients (rg_sys g))" for a
    using that by (auto simp: nth_append)
  moreover have "owned (case res of None \<Rightarrow> GCommit name clients | Some err \<Rightarrow> GRollback clients err) = set clients"
    by (simp split: option.splits)
  ultimately show ?thesis
    using b g_add_begin
    by (intro owner_inv_move [OF inv, of h i "case res of None \<Rightarrow> GCommit name clients | Some err \<Rightarrow> GRollback clients err" s])
      (auto split: option.splits)
next
  case (g_add_commit i name clients s res)
  show ?thesis
  proof (cases res)
    case None
    then show ?thesis using g_add_commit by (intro owner_inv_commit [OF inv, of i name clients s h]) auto
  next
    case (Some err)
    then have "s = rg_sys g" using g_add_commit(4) by (auto simp: AddConsumerN_commit_def split: if_splits)
    then show ?thesis
      using g_add_commit Some by (intro owner_inv_move [OF inv, of h i "GRollback clients err" s]) auto
  qed
next
  case (g_add_rollback i clients err answers)
  have lt: "a < length (sys_clients (rg_sys g))" if "a \<in> set clients" for a
  proof -
    have "a \<in> owned (rg_pc g i)" using that g_add_rollback(3) by simp
    then show ?thesis using inv unfolding owner_inv_def by blast
  qed
  then show ?thesis
    using g_add_rollback close_all_clients [of answers clients "rg_sys g"] close_all_store [of answers clients "rg_sys g"]
    by (intro owner_inv_move [OF inv, of h i "GAdded clients (Some err)" "close_all answers clients (rg_sys g)"]) auto
next
  case (g_init_guard i ctxErr)
  then show ?thesis
    by (intro owner_inv_move [OF inv, of h i
          "case guardConsumerStart (rg_sys g) ctxErr of None \<Rightarrow> GSnapshot | Some err \<Rightarrow> GInited (Some err)" "rg_sys g"])
      (auto split: option.splits)
next
  case (g_init_snapshot i)
  then show ?thesis
    by (intro owner_inv_move [OF inv, of h i "GStart (snapshotConsumers (rg_sys g))" "rg_sys g"]) auto
next
  case (g_init_start i snap s res)
  obtain cs n where snap: "snap = (cs, n)" by (cases snap)
  have "consumers (sys_store s) = consumers (sys_store (rg_sys g))" "sys_clients s = sys_clients (rg_sys g)"
    using g_init_start(4) by (auto simp: snap InitConsumer_start_cases split: if_splits)
  then show ?thesis
    using g_init_start by (intro owner_inv_move [OF inv, of h i "GInited res" s]) auto
qed

lemma owner_inv_start: "system_ok s \<Longrightarrow> owner_inv (registry_start s calls)"
  by (auto simp: owner_inv_def registry_start_def system_ok_def map_ok_def registered_def)

interpretation owners: invariant_system "registry_start s calls" registry_step "\<lambda>g. system_ok s \<longrightarrow> owner_inv g" for s calls
  by unfold_locales (blast intro: owner_inv_start owner_inv_step)+

section \<open>Properties\<close>

text \<open>
  Consumers are started once. However calls of \<open>AddConsumerN\<close> and \<open>InitConsumer\<close>
  interleave, at most one \<open>InitConsumer\<close> succeeds, and once one has the store says so.
\<close>

theorem InitConsumer_succeeds_once:
  assumes "reach (registry_start s calls) registry_step g" "rg_pc g i = GInited None"
  shows "consumersStarted (sys_store (rg_sys g)) \<and> (\<forall>j. rg_pc g j = GInited None \<longrightarrow> j = i)"
  using starts.inv_reach [OF assms(1)] assms(2) unfolding start_inv_def by blast

text \<open>
  C25. A failed \<open>AddConsumerN\<close> leaves nothing behind. However the calls interleave, when it
  returns an error every client it made has been closed and none of them is registered; and no
  client is ever in the hands of two calls.
\<close>

theorem failed_AddConsumerN_rolls_back:
  assumes "system_ok s" "reach (registry_start s calls) registry_step g" "rg_pc g i = GAdded clients (Some err)"
  shows "(\<forall>a \<in> set clients. closeOnce (client_at (rg_sys g) a) \<and> a \<notin> registered (rg_sys g)) \<and>
    (\<forall>j. j \<noteq> i \<longrightarrow> owned (rg_pc g j) \<inter> set clients = {})"
proof -
  have inv: "owner_inv g" using owners.inv_reach [OF assms(2)] assms(1) by blast
  have own: "owned (rg_pc g i) = set clients" by (simp add: assms(3))
  show ?thesis using inv assms(3) own unfolding owner_inv_def by blast
qed

text \<open>A commit between the snapshot and the start succeeds, and its clients get no loop.\<close>

lemma start_misses_late_commit:
  assumes "store_inv s" "\<not> consumersStarted (sys_store s)" "registered s \<noteq> {}" "queue_param s name \<noteq> None"
    and "AddConsumerN_begin s ctx name par cb = (t, cl, res)"
  shows "\<exists>u v. res = None \<and> cl \<noteq> [] \<and> sys_store t = sys_store s \<and> AddConsumerN_commit name cl t = (u, None) \<and>
    InitConsumer_start (snapshotConsumers s) u = (v, None) \<and> consumersStarted (sys_store v) \<and>
    (\<forall>a \<in> set cl. a \<in> registered v \<and> a \<notin> set (started_loops v))"
proof -
  have ok: "system_ok s" "loops_inv s" using assms(1) by (simp_all add: store_inv_def)
  have t: "sys_store t = sys_store s" "res = None" "cl \<noteq> []" "started_loops t = started_loops s"
    "\<And>a. a \<in> set cl \<Longrightarrow> length (sys_clients s) \<le> a"
    using AddConsumerN_begin_cases [OF assms(5)] assms(2,4) by auto
  obtain u where c: "AddConsumerN_commit name cl t = (u, None)" and "sys_trace u = sys_trace t"
      and us: "\<not> consumersStarted (sys_store u)"
    using assms(2) by (simp add: AddConsumerN_commit_def t(1))
  then have loops: "started_loops u = []"
    using t(4) ok(2) assms(2) by (simp add: started_loops_def loops_inv_def)
  have nn: "consumers (sys_store t) \<noteq> None" using ok(1) by (simp add: t(1) system_ok_def map_ok_def)
  have reg: "registered u = registered s \<union> set cl"
    using registered_commit [OF c nn] registered_same [of t s] t(1) by simp
  obtain cs n where snap: "snapshotConsumers s = (cs, n)" by fastforce
  have n: "n \<noteq> 0" using snapshot_count [OF ok(1)] assms(3) by (simp add: snap)
  have cs: "set (concat (map snd (gm_entries cs))) = registered s"
    using registered_entries [OF ok(1)] snap by (auto simp: snapshotConsumers_def)
  define v where "v = fst (InitConsumer_start (cs, n) u)"
  have i: "InitConsumer_start (cs, n) u = (v, None)" using n us by (simp add: v_def InitConsumer_start_cases)
  have v: "consumersStarted (sys_store v)" "consumers (sys_store v) = consumers (sys_store u)"
      "started_loops v = concat (map snd (gm_entries cs))"
    using n us loops by (simp_all add: v_def InitConsumer_start_cases started_loops_def)
  have "a \<in> registered v \<and> a \<notin> set (started_loops v)" if "a \<in> set cl" for a
  proof -
    have "b < length (sys_clients s)" if "b \<in> registered s" for b
      using ok(1) that by (auto simp: registered_def system_ok_def)
    then have "a \<notin> registered s" using t(5) [OF that] by fastforce
    then show ?thesis using that reg registered_same [OF v(2)] cs by (simp add: v(3))
  qed
  then show ?thesis using t(1-3) c i v(1) by (simp add: snap)
qed

text \<open>
  C31. But a registration can be lost. From every consistent store with a registered consumer
  that is not started, an \<open>AddConsumerN\<close> that runs between the snapshot and the
  compare-and-swap of \<open>InitConsumer\<close> returns success, and so does \<open>InitConsumer\<close>: the new
  clients are registered, connected, and have no loop, and no later call can start one.
\<close>

theorem registration_lost_during_start:
  assumes "store_inv s" "\<not> consumersStarted (sys_store s)" "registered s \<noteq> {}" "queue_param s name \<noteq> None"
    and "calls 0 = CallAdd ctx name par cb" "calls 1 = CallInit None"
  shows "\<exists>g clients. reach (registry_start s calls) registry_step g \<and>
    rg_pc g 0 = GAdded clients None \<and> rg_pc g 1 = GInited None \<and> clients \<noteq> [] \<and>
    (\<forall>a \<in> set clients. a \<in> registered (rg_sys g) \<and> a \<notin> set (started_loops (rg_sys g))) \<and>
    snd (InitConsumer (rg_sys g) None) = Some (Sentinel ErrConsumersAlreadyStarted)"
proof -
  obtain t cl res where b: "AddConsumerN_begin s ctx name par cb = (t, cl, res)"
    by (cases "AddConsumerN_begin s ctx name par cb") auto
  obtain u v where m: "res = None" "cl \<noteq> []" "AddConsumerN_commit name cl t = (u, None)"
      "InitConsumer_start (snapshotConsumers s) u = (v, None)" "consumersStarted (sys_store v)"
      "\<forall>a \<in> set cl. a \<in> registered v \<and> a \<notin> set (started_loops v)"
    using start_misses_late_commit [OF assms(1-4) b] by blast
  define g where "g = registry_start s calls"
  define g3 where "g3 = move (move (move g 1 GSnapshot s) 1 (GStart (snapshotConsumers s)) s) 0 (GCommit name cl) t"
  define g5 where "g5 = move (move g3 0 (GAdded cl None) u) 1 (GInited None) v"
  have g: "rg_pc g j = GIdle" "rg_sys g = s" "rg_calls g = calls" for j by (simp_all add: g_def registry_start_def)
  have r1: "run registry_step g [(1, InitGuard), (1, InitSnapshot), (0, AddBegin)] g3"
    using assms(2,5,6) b m(1) by (simp add: registry_step_simps g g3_def guardConsumerStart_def)
  obtain cs n where snap: "snapshotConsumers s = (cs, n)" by force
  have "run registry_step g3 [(0, AddCommit), (1, InitStart)] g5"
    using m(3,4) by (simp add: registry_step_simps g3_def g5_def snap)
  then have "reach g registry_step g5" by (rule reach_run [OF run_reach [OF r1]])
  moreover have "rg_sys g5 = v" "rg_pc g5 0 = GAdded cl None" "rg_pc g5 1 = GInited None" by (simp_all add: g5_def)
  moreover have "snd (InitConsumer v None) = Some (Sentinel ErrConsumersAlreadyStarted)"
    using m(5) by (simp add: InitConsumer_def guardConsumerStart_def)
  ultimately show ?thesis using m(2,6) unfolding g_def by metis
qed

text \<open>A store with one consumer, and two goroutines.\<close>

definition race_calls :: "nat \<Rightarrow> nat call" where
  "race_calls i = (if i = 1 then CallInit None else CallAdd 0 ''plain'' 1 None)"

definition race_system :: "nat system" where
  "race_system = fst (AddConsumerN (\<lambda>_. (None, None)) demo_system 0 ''plain'' 1 None)"

lemma race_system_facts:
  "store_inv race_system" "\<not> consumersStarted (sys_store race_system)" "registered race_system \<noteq> {}"
  "queue_param race_system ''plain'' \<noteq> None"
proof -
  have "reach demo_system store_step race_system"
    using reach_perform [OF reach_start, of "OpAddConsumerN (\<lambda>_. (None, None)) 0 ''plain'' 1 None" demo_system]
    by (simp add: race_system_def)
  then show "store_inv race_system"
    using store.inv_reach newQueueStore_inv [OF demo_new demo_keys] by blast
  obtain s' err where a: "AddConsumerN (\<lambda>_. (None, None)) demo_system 0 ''plain'' 1 None = (s', err)" by fastforce
  note r = AddConsumerN_registers [OF _ demo_params(2) a, unfolded demo_params, simplified]
  have nn: "consumers (sys_store demo_system) \<noteq> None" using demo_ok by (simp add: system_ok_def map_ok_def)
  have s': "race_system = s'" by (simp add: race_system_def a)
  show "\<not> consumersStarted (sys_store race_system)" by (simp add: s' r(3) demo_params)
  show "queue_param race_system ''plain'' \<noteq> None" using demo_params(2) by (simp add: s' r(3) queue_param_def)
  have "2 \<in> set (consumers_of race_system ''plain'')"
    by (simp add: consumers_of_def s' r(3) gm_put_get [OF nn] copies_def)
  then show "registered race_system \<noteq> {}" by (auto simp: registered_def)
qed

lemma race_calls_facts: "race_calls 0 = CallAdd 0 ''plain'' 1 None" "race_calls 1 = CallInit None"
  by (simp_all add: race_calls_def)

text \<open>Call 1 starts while call 0 is between its check and its critical section.\<close>

lemma race_refused:
  "\<exists>g clients err. reach (registry_start race_system race_calls) registry_step g \<and>
     rg_pc g 1 = GInited None \<and> rg_pc g 0 = GAdded clients (Some err) \<and> clients \<noteq> []"
proof -
  let ?g = "registry_start race_system race_calls"
  have g: "rg_pc ?g j = GIdle" "rg_sys ?g = race_system" "rg_calls ?g = race_calls" for j
    by (simp_all add: registry_start_def)
  obtain t cl res where b: "AddConsumerN_begin race_system 0 ''plain'' 1 None = (t, cl, res)"
    by (cases "AddConsumerN_begin race_system 0 ''plain'' 1 None") auto
  have t: "sys_store t = sys_store race_system" "res = None" "cl \<noteq> []"
    using AddConsumerN_begin_cases [OF b] race_system_facts(2,4) by auto
  obtain cs n where snap: "snapshotConsumers t = (cs, n)" by fastforce
  have "snapshotConsumers race_system = (cs, n)" using snap by (simp add: snapshotConsumers_def t(1))
  then have n: "n \<noteq> 0"
    using race_system_facts(1,3) snapshot_count [of race_system] by (simp add: store_inv_def)
  obtain v where i: "InitConsumer_start (cs, n) t = (v, None)" and v: "consumersStarted (sys_store v)"
    using n race_system_facts(2) by (simp add: InitConsumer_start_cases t(1))
  define e where "e = Sentinel ErrConsumersAlreadyStarted"
  define g4 where "g4 = move (move (move (move ?g 0 (GCommit ''plain'' cl) t) 1 GSnapshot t) 1 (GStart (cs, n)) t) 1 (GInited None) v"
  define g6 where "g6 = move (move g4 0 (GRollback cl e) v) 0 (GAdded cl (Some e)) (close_all (\<lambda>_. (None, None)) cl v)"
  have r: "run registry_step ?g [(0, AddBegin), (1, InitGuard), (1, InitSnapshot), (1, InitStart)] g4"
    using b t(1,2) snap i race_system_facts(2)
    by (simp add: registry_step_simps g4_def registry_start_def race_calls_def guardConsumerStart_def)
  have "run registry_step g4 [(0, AddCommit), (0, AddRollback (\<lambda>_. (None, None)))] g6"
    using v by (simp add: registry_step_simps g4_def g6_def AddConsumerN_commit_def e_def)
  from reach_run [OF run_reach [OF r] this] t(3) show ?thesis
    by (intro exI [of _ g6] exI [of _ cl] exI [of _ e]) (simp add: g6_def g4_def)
qed

theorem registration_lost_during_start_witness:
  "\<exists>(g :: nat registry) clients. rg_pc g 0 = GAdded clients None \<and> clients \<noteq> [] \<and>
     (\<forall>a \<in> set clients. a \<in> registered (rg_sys g) \<and> a \<notin> set (started_loops (rg_sys g)))"
  using registration_lost_during_start [OF race_system_facts race_calls_facts] by blast

theorem InitConsumer_succeeds_once_witness:
  "\<exists>g :: nat registry. rg_pc g 1 = GInited None \<and> consumersStarted (sys_store (rg_sys g))"
  using race_refused InitConsumer_succeeds_once by blast

theorem failed_AddConsumerN_rolls_back_witness:
  "\<exists>(g :: nat registry) clients. clients \<noteq> [] \<and> (\<forall>a \<in> set clients. closeOnce (client_at (rg_sys g) a))"
proof -
  have ok: "system_ok race_system" using race_system_facts(1) by (simp add: store_inv_def)
  show ?thesis using race_refused failed_AddConsumerN_rolls_back [OF ok] by blast
qed

end
