(* ===== verification/Delivery.thy ===== *)
theory Delivery
  imports State
begin

text \<open>
  \<open>delivery.go\<close>: what happens to one delivery, from \<open>inflight.Add\<close> to the acknowledger
  call. An operation returns the list of its effects in order, and the panic that leaves it,
  if one does. What the environment answers is the record \<open>delivery_env\<close>; the abstract
  contract is \<open>verdict\<close>.
\<close>

section \<open>The environment of one delivery\<close>

record amqp_delivery =
  delivery_Headers :: headers
  delivery_Body :: bytes

record delivery_env =
  env_moment :: moment \<comment> \<open>which call of the handlers this is\<close>
  env_now :: gotime \<comment> \<open>\<open>time.Now()\<close> in \<open>isExpired\<close>\<close>
  env_settled :: "settlement \<Rightarrow> go_error option" \<comment> \<open>what the acknowledger returns\<close>

section \<open>Settling\<close>

text \<open>An acknowledger call; its error is logged and dropped.\<close>

definition settle :: "delivery_env \<Rightarrow> settlement \<Rightarrow> string \<Rightarrow> 'c effect list" where
  "settle env s msg =
     Settle s # (case env_settled env s of None \<Rightarrow> [] | Some e \<Rightarrow> [Log Warn msg [LogErr e]])"

definition ackDelivery :: "delivery_env \<Rightarrow> 'c client \<Rightarrow> 'c effect list" where
  "ackDelivery env clnt = settle env (Ack False) (''error acking message in queue '' @ queueName clnt)"

definition nackDelivery :: "delivery_env \<Rightarrow> 'c client \<Rightarrow> go_error \<Rightarrow> 'c effect list" where
  "nackDelivery env clnt cErr =
     settle env (Nack False True) (''error nacking message in queue '' @ queueName clnt) @
     [Log Warn (''error processing message in queue '' @ queueName clnt @ '' (no retry mode)'') [LogErr cErr]]"

definition rejectDelivery :: "delivery_env \<Rightarrow> 'c client \<Rightarrow> go_error \<Rightarrow> 'c effect list" where
  "rejectDelivery env clnt cErr =
     settle env (Reject False) (''error rejecting message in queue '' @ queueName clnt) @
     [Log Warn (''error while retrying message in queue '' @ queueName clnt) [LogErr cErr]]"

definition nackAfterPanic :: "delivery_env \<Rightarrow> 'c client \<Rightarrow> 'c effect list" where
  "nackAfterPanic env clnt =
     settle env (Nack False False) (''error nacking after panic in queue '' @ queueName clnt)"

section \<open>The expired header\<close>

definition header_string :: "headers \<Rightarrow> string \<Rightarrow> string option" where
  "header_string h k = (case gm_get h k of Some (HString v) \<Rightarrow> Some v | _ \<Rightarrow> None)"

definition extractExpiredHeader :: "'c client \<Rightarrow> amqp_delivery \<Rightarrow> 'c effect list \<times> string" where
  "extractExpiredHeader clnt d =
     (if \<not> withRetry clnt then
        ([], case header_string (delivery_Headers d) ''expired'' of Some v \<Rightarrow> v | None \<Rightarrow> [])
      else
        (let warn = ([Log Warn (''missing or invalid expired header for queue '' @ queueName clnt @
                               '', treating as expired'') []], [])
         in case header_string (delivery_Headers d) ''expired'' of
              Some v \<Rightarrow> if v \<noteq> [] then ([], v) else warn
            | None \<Rightarrow> warn))"

section \<open>Failed messages\<close>

text \<open>\<open>fmt.Sprint\<close> of the header, for the log.\<close>

fun sprint :: "hval option \<Rightarrow> string" where
  "sprint None = ''<nil>''"
| "sprint (Some (HString s)) = s"
| "sprint (Some (HInt n)) = append_int n 1"
| "sprint (Some (HOther s)) = s"

text \<open>The fail handler is not guarded: its panic leaves the operation before the ack.\<close>

definition finalizeFailedRetry ::
  "fail_job_handler option \<Rightarrow> delivery_env \<Rightarrow> 'c client \<Rightarrow> amqp_delivery \<Rightarrow> go_error \<Rightarrow> bool \<Rightarrow> bool \<Rightarrow>
     'c effect list \<times> panic option" where
  "finalizeFailedRetry fail env clnt d cErr expired retryable =
     (let logged =
        (if \<not> retryable then
           [Log Info (''non-retryable processing error for queue '' @ queueName clnt) [LogErr cErr]]
         else if expired then
           [Log Info (''retry deadline expired for queue '' @ queueName clnt @ '', expired='' @
                      sprint (gm_get (delivery_Headers d) ''expired'')) []]
         else []);
        job = \<lparr>job_Queue = queueName clnt, job_Body = delivery_Body d, job_Err = Some cErr\<rparr>;
        acked = settle env (Ack False) (''error acking message after failed retry for '' @ queueName clnt)
      in case fail of
           None \<Rightarrow> (logged @ acked, None)
         | Some h \<Rightarrow>
             (case h (env_moment env) job of
                Panicked p \<Rightarrow> (logged @ [FailJob job], Some (UserPanic p))
              | Returned None \<Rightarrow> (logged @ [FailJob job] @ acked, None)
              | Returned (Some err) \<Rightarrow>
                  (logged @ [FailJob job, Log Warn (''error in fail handler for queue '' @ queueName clnt) [LogErr err]] @
                   acked, None)))"

definition handleRetryError ::
  "fail_job_handler option \<Rightarrow> delivery_env \<Rightarrow> 'c client \<Rightarrow> amqp_delivery \<Rightarrow> string \<Rightarrow> go_error \<Rightarrow> bool \<Rightarrow>
     'c effect list \<times> panic option" where
  "handleRetryError fail env clnt d expired cErr retryable =
     (let isExp = (expired = [] \<or> isExpired (env_now env) expired)
      in if isExp \<or> \<not> retryable then finalizeFailedRetry fail env clnt d cErr isExp retryable
         else (rejectDelivery env clnt cErr, None))"

definition handleConsumerError ::
  "fail_job_handler option \<Rightarrow> delivery_env \<Rightarrow> 'c client \<Rightarrow> amqp_delivery \<Rightarrow> string \<Rightarrow> go_error \<Rightarrow>
     'c effect list \<times> panic option" where
  "handleConsumerError fail env clnt d expired cErr =
     (if withRetry clnt then handleRetryError fail env clnt d expired cErr (IsRetryable (Some cErr))
      else (nackDelivery env clnt cErr, None))"

section \<open>One delivery\<close>

text \<open>The handler runs under \<open>recover\<close>; a nil handler panics like any other call of nil.\<close>

definition invokeHandler ::
  "delivery_env \<Rightarrow> 'c client \<Rightarrow> 'c \<Rightarrow> 'c consumer_handler option \<Rightarrow> bytes \<Rightarrow>
     'c effect list \<times> (bool \<times> go_error option)" where
  "invokeHandler env clnt ctx cb body =
     (let result = (case cb of
          None \<Rightarrow> Panicked ''invalid memory address or nil pointer dereference''
        | Some h \<Rightarrow> h (env_moment env) ctx body)
      in case result of
           Panicked p \<Rightarrow>
             ([Handle ctx body,
               Log Error (''panic while processing message in queue '' @ queueName clnt) [LogText p]],
              (True, None))
         | Returned e \<Rightarrow> ([Handle ctx body], (False, e)))"

text \<open>\<open>inflight.Done\<close> is deferred, so it ends every path, the panicking ones included.\<close>

definition handleDelivery ::
  "'c queueStore \<Rightarrow> delivery_env \<Rightarrow> 'c \<Rightarrow> 'c client \<Rightarrow> 'c consumer_handler option \<Rightarrow> amqp_delivery \<Rightarrow>
     'c effect list \<times> panic option" where
  "handleDelivery queue env loopCtx clnt cb d =
     (let (w, expired) = extractExpiredHeader clnt d;
          headers = amqpTableToMap (delivery_Headers d);
          (effs, p) =
            (case ConsumeHeadersExtractor clnt of
               None \<Rightarrow> ([], Some NilFunc)
             | Some extract \<Rightarrow>
                 (case extract loopCtx headers of
                    Panicked t \<Rightarrow> ([Extract loopCtx headers], Some (UserPanic t))
                  | Returned handlerCtx \<Rightarrow>
                      (let (he, panicked, cErr) = invokeHandler env clnt handlerCtx cb (delivery_Body d);
                           (rest, p) =
                             (if panicked then (nackAfterPanic env clnt, None)
                              else case cErr of
                                  None \<Rightarrow> (ackDelivery env clnt, None)
                                | Some e \<Rightarrow> handleConsumerError (failJobHandler queue) env clnt d expired e)
                       in (Extract loopCtx headers # he @ rest, p))))
      in ([InflightAdd] @ w @ effs @ [InflightDone], p))"

section \<open>The contract\<close>

text \<open>What a delivery comes to, and the effects each verdict stands for.\<close>

datatype verdict = Done | Requeue | DeadLetter | Discard | Fail failed_job

fun verdict_of :: "bool \<Rightarrow> bool \<Rightarrow> queue_name \<Rightarrow> bytes \<Rightarrow> go_error option outcome \<Rightarrow> verdict" where
  "verdict_of retrying expired q body (Panicked _) = Discard"
| "verdict_of retrying expired q body (Returned None) = Done"
| "verdict_of retrying expired q body (Returned (Some e)) =
     (if \<not> retrying then Requeue
      else if expired \<or> \<not> IsRetryable (Some e) then Fail \<lparr>job_Queue = q, job_Body = body, job_Err = Some e\<rparr>
      else DeadLetter)"

fun verdict_effects :: "verdict \<Rightarrow> 'c effect list" where
  "verdict_effects Done = [Settle (Ack False)]"
| "verdict_effects Requeue = [Settle (Nack False True)]"
| "verdict_effects DeadLetter = [Settle (Reject False)]"
| "verdict_effects Discard = [Settle (Nack False False)]"
| "verdict_effects (Fail job) = [FailJob job, Settle (Ack False)]"

text \<open>The effects the contract is about: no logs, no counter.\<close>

fun visible :: "'c effect \<Rightarrow> bool" where
  "visible (Log _ _ _) = False"
| "visible InflightAdd = False"
| "visible InflightDone = False"
| "visible _ = True"

definition deadline_passed :: "gotime \<Rightarrow> headers \<Rightarrow> bool" where
  "deadline_passed now h =
     (case header_string h ''expired'' of None \<Rightarrow> True | Some v \<Rightarrow> v = [] \<or> isExpired now v)"

definition handler_result :: "delivery_env \<Rightarrow> 'c consumer_handler option \<Rightarrow> 'c \<Rightarrow> bytes \<Rightarrow> go_error option outcome" where
  "handler_result env cb ctx body =
     (case cb of None \<Rightarrow> Panicked ''invalid memory address or nil pointer dereference''
      | Some h \<Rightarrow> h (env_moment env) ctx body)"

definition delivery_verdict ::
  "delivery_env \<Rightarrow> 'c client \<Rightarrow> 'c consumer_handler option \<Rightarrow> 'c \<Rightarrow> amqp_delivery \<Rightarrow> verdict" where
  "delivery_verdict env clnt cb ctx d =
     verdict_of (withRetry clnt) (deadline_passed (env_now env) (delivery_Headers d)) (queueName clnt)
       (delivery_Body d) (handler_result env cb ctx (delivery_Body d))"

lemma filter_settle [simp]: "filter visible (settle env s msg) = [Settle s]"
  by (simp add: settle_def split: option.splits)

lemmas settling_defs = ackDelivery_def nackDelivery_def rejectDelivery_def nackAfterPanic_def

lemma extractExpiredHeader_silent: "filter visible (fst (extractExpiredHeader clnt d)) = []"
  by (simp add: extractExpiredHeader_def Let_def split: option.splits)

lemma extractExpiredHeader_passed:
  "withRetry clnt \<Longrightarrow>
     snd (extractExpiredHeader clnt d) = [] \<or> isExpired now (snd (extractExpiredHeader clnt d)) \<longleftrightarrow>
     deadline_passed now (delivery_Headers d)"
  by (auto simp: extractExpiredHeader_def deadline_passed_def Let_def split: option.splits)

section \<open>The pieces meet the contract\<close>

text \<open>
  The fail handler a store calls: present when the client retries (\<open>validateConfig\<close> sees to
  it), and returning rather than panicking.
\<close>

definition fail_ready :: "fail_job_handler option \<Rightarrow> 'c client \<Rightarrow> bool" where
  "fail_ready fail clnt \<longleftrightarrow>
     (withRetry clnt \<longrightarrow> fail \<noteq> None) \<and> (\<forall>h m job. fail = Some h \<longrightarrow> (\<exists>r. h m job = Returned r))"

lemma finalizeFailedRetry_visible:
  assumes "fail = Some h" "\<And>m job. \<exists>r. h m job = Returned r"
  shows "filter visible (fst (finalizeFailedRetry fail env clnt d e expd rtry)) =
      verdict_effects (Fail \<lparr>job_Queue = queueName clnt, job_Body = delivery_Body d, job_Err = Some e\<rparr>)"
    and "snd (finalizeFailedRetry fail env clnt d e expd rtry) = None"
proof -
  obtain r where r: "h (env_moment env) \<lparr>job_Queue = queueName clnt, job_Body = delivery_Body d, job_Err = Some e\<rparr> = Returned r"
    using assms(2) by blast
  show "filter visible (fst (finalizeFailedRetry fail env clnt d e expd rtry)) =
      verdict_effects (Fail \<lparr>job_Queue = queueName clnt, job_Body = delivery_Body d, job_Err = Some e\<rparr>)"
    using assms(1) r by (cases r) (simp_all add: finalizeFailedRetry_def Let_def)
  show "snd (finalizeFailedRetry fail env clnt d e expd rtry) = None"
    using assms(1) r by (cases r) (simp_all add: finalizeFailedRetry_def Let_def)
qed

lemma handleConsumerError_visible:
  assumes "fail_ready fail clnt"
  shows "filter visible (fst (handleConsumerError fail env clnt d (snd (extractExpiredHeader clnt d)) e)) =
      verdict_effects (verdict_of (withRetry clnt) (deadline_passed (env_now env) (delivery_Headers d))
        (queueName clnt) (delivery_Body d) (Returned (Some e)))"
    and "snd (handleConsumerError fail env clnt d (snd (extractExpiredHeader clnt d)) e) = None"
proof -
  have f: "\<exists>h. fail = Some h \<and> (\<forall>m job. \<exists>r. h m job = Returned r)" if "withRetry clnt"
    using assms that unfolding fail_ready_def by blast
  show "filter visible (fst (handleConsumerError fail env clnt d (snd (extractExpiredHeader clnt d)) e)) =
      verdict_effects (verdict_of (withRetry clnt) (deadline_passed (env_now env) (delivery_Headers d))
        (queueName clnt) (delivery_Body d) (Returned (Some e)))"
    using f extractExpiredHeader_passed [of clnt d "env_now env"]
    by (auto simp: handleConsumerError_def handleRetryError_def settling_defs Let_def
        finalizeFailedRetry_visible)
  show "snd (handleConsumerError fail env clnt d (snd (extractExpiredHeader clnt d)) e) = None"
    using f by (auto simp: handleConsumerError_def handleRetryError_def Let_def finalizeFailedRetry_visible(2))
qed

lemma invokeHandler_result:
  "invokeHandler env clnt ctx cb body =
     (case handler_result env cb ctx body of
        Panicked p \<Rightarrow>
          ([Handle ctx body,
            Log Error (''panic while processing message in queue '' @ queueName clnt) [LogText p]], True, None)
      | Returned e \<Rightarrow> ([Handle ctx body], False, e))"
  by (simp add: invokeHandler_def handler_result_def split: option.splits outcome.splits)

lemma handleDelivery_visible:
  assumes "ConsumeHeadersExtractor clnt = Some extract"
    and "extract loopCtx (amqpTableToMap (delivery_Headers d)) = Returned ctx"
    and "fail_ready (failJobHandler queue) clnt"
  shows "filter visible (fst (handleDelivery queue env loopCtx clnt cb d)) =
      Extract loopCtx (amqpTableToMap (delivery_Headers d)) # Handle ctx (delivery_Body d) #
      verdict_effects (delivery_verdict env clnt cb ctx d) \<and>
    snd (handleDelivery queue env loopCtx clnt cb d) = None"
proof -
  obtain w x where ex: "extractExpiredHeader clnt d = (w, x)" by fastforce
  have w: "filter visible w = []" using extractExpiredHeader_silent [of clnt d] ex by simp
  note defs = handleDelivery_def invokeHandler_result delivery_verdict_def settling_defs
  show ?thesis
  proof (cases "handler_result env cb ctx (delivery_Body d)")
    case (Panicked p)
    then show ?thesis using assms(1,2) ex w by (simp add: defs)
  next
    case (Returned r)
    show ?thesis
    proof (cases r)
      case None
      then show ?thesis using Returned assms(1,2) ex w by (simp add: defs)
    next
      case (Some e)
      obtain effs p where h: "handleConsumerError (failJobHandler queue) env clnt d x e = (effs, p)"
        by fastforce
      show ?thesis
        using handleConsumerError_visible [OF assms(3), of env d e] Some Returned assms(1,2) ex w h
        by (simp add: defs)
    qed
  qed
qed

section \<open>Properties\<close>

text \<open>
  C1. One delivery is handled as its contract says. With a working extractor and a fail
  handler that returns, the effects of \<open>handleDelivery\<close> other than logging are: the
  extractor, the handler once, then those of the verdict. Success is acked; an error without
  retry mode is requeued; in retry mode a retryable error before the deadline is rejected to
  the delay queue, any other error goes to the fail handler with its queue, body and error and
  is then acked; a panic is nacked without requeue. Nothing panics out of it.
\<close>

theorem handleDelivery_refines_verdict:
  assumes "ConsumeHeadersExtractor clnt = Some extract"
    and "extract loopCtx (amqpTableToMap (delivery_Headers d)) = Returned ctx"
    and "fail_ready (failJobHandler queue) clnt"
  shows "filter visible (fst (handleDelivery queue env loopCtx clnt cb d)) =
      Extract loopCtx (amqpTableToMap (delivery_Headers d)) # Handle ctx (delivery_Body d) #
      verdict_effects (delivery_verdict env clnt cb ctx d) \<and>
    snd (handleDelivery queue env loopCtx clnt cb d) = None"
  by (rule handleDelivery_visible [OF assms])

definition sample_env :: delivery_env where
  "sample_env = \<lparr>env_moment = 0, env_now = Time (1709210096 * second), env_settled = (\<lambda>_. None)\<rparr>"

definition sample_delivery :: amqp_delivery where
  "sample_delivery = \<lparr>delivery_Headers = Some [(''expired'', HInt 7)], delivery_Body = [1, 2]\<rparr>"

theorem handleDelivery_refines_verdict_witness:
  "filter visible (fst (handleDelivery sample_store sample_env 5 sample_client
       (Some (\<lambda>_ _ _. Returned (Some (RetryableError None)))) sample_delivery)) =
     [Extract 5 (Some [(''expired'', HInt 7)]), Handle 5 [1, 2],
      FailJob \<lparr>job_Queue = ''jobs'', job_Body = [1, 2], job_Err = Some (RetryableError None)\<rparr>,
      Settle (Ack False)]"
proof -
  have "fail_ready (failJobHandler sample_store) sample_client"
    by (simp add: fail_ready_def sample_store_def)
  then have "filter visible (fst (handleDelivery sample_store sample_env 5 sample_client
       (Some (\<lambda>_ _ _. Returned (Some (RetryableError None)))) sample_delivery)) =
     Extract 5 (amqpTableToMap (delivery_Headers sample_delivery)) # Handle 5 (delivery_Body sample_delivery) #
      verdict_effects (delivery_verdict sample_env sample_client
        (Some (\<lambda>_ _ _. Returned (Some (RetryableError None)))) 5 sample_delivery)"
    using handleDelivery_refines_verdict [of sample_client "\<lambda>parent _. Returned parent" 5 sample_delivery 5
        sample_store sample_env] by (simp add: sample_client_def)
  then show ?thesis
    by (simp add: sample_delivery_def sample_client_def sample_env_def delivery_verdict_def
        handler_result_def deadline_passed_def header_string_def withRetry_def
        amqpTableToMap_def gm_copy_def gm_make_def gm_get_def gm_len_def)
qed

text \<open>The counter and the settlements of a piece, for the two counting properties.\<close>

fun counts :: "'c effect \<Rightarrow> bool" where
  "counts InflightAdd = True"
| "counts InflightDone = True"
| "counts _ = False"

fun settles :: "'c effect \<Rightarrow> bool" where
  "settles (Settle _) = True"
| "settles _ = False"

lemma filter_settle_counts [simp]:
  "filter counts (settle env s msg) = []"
  "length (filter settles (settle env s msg)) = 1"
  by (simp_all add: settle_def split: option.splits)

lemma extractExpiredHeader_counts:
  "filter counts (fst (extractExpiredHeader clnt d)) = []"
  "filter settles (fst (extractExpiredHeader clnt d)) = []"
  by (simp_all add: extractExpiredHeader_def Let_def split: option.splits)

lemma finalizeFailedRetry_counts:
  "filter counts (fst (finalizeFailedRetry fail env clnt d e expd rtry)) = []"
  "length (filter settles (fst (finalizeFailedRetry fail env clnt d e expd rtry))) =
     (if snd (finalizeFailedRetry fail env clnt d e expd rtry) = None then 1 else 0)"
  by (auto simp: finalizeFailedRetry_def Let_def split: option.splits outcome.splits)

lemma handleConsumerError_counts:
  "filter counts (fst (handleConsumerError fail env clnt d x e)) = []"
  "length (filter settles (fst (handleConsumerError fail env clnt d x e))) =
     (if snd (handleConsumerError fail env clnt d x e) = None then 1 else 0)"
proof -
  let ?exp = "x = [] \<or> isExpired (env_now env) x"
  note defs = handleConsumerError_def handleRetryError_def Let_def settling_defs
  consider (plain) "\<not> withRetry clnt" | (fail) "withRetry clnt" "?exp \<or> \<not> IsRetryable (Some e)"
    | (retry) "withRetry clnt" "\<not> (?exp \<or> \<not> IsRetryable (Some e))" by blast
  then have "filter counts (fst (handleConsumerError fail env clnt d x e)) = [] \<and>
    length (filter settles (fst (handleConsumerError fail env clnt d x e))) =
     (if snd (handleConsumerError fail env clnt d x e) = None then 1 else 0)"
  proof cases
    case fail
    then have "handleConsumerError fail env clnt d x e =
        finalizeFailedRetry fail env clnt d e ?exp (IsRetryable (Some e))"
      by (simp only: defs if_True)
    then show ?thesis by (simp only: finalizeFailedRetry_counts)
  qed (simp_all add: defs)
  then show "filter counts (fst (handleConsumerError fail env clnt d x e)) = []"
    "length (filter settles (fst (handleConsumerError fail env clnt d x e))) =
     (if snd (handleConsumerError fail env clnt d x e) = None then 1 else 0)" by blast+
qed

lemma handleDelivery_shape:
  "\<exists>mid. fst (handleDelivery queue env loopCtx clnt cb d) = InflightAdd # mid @ [InflightDone] \<and>
     filter counts mid = [] \<and>
     length (filter settles mid) = (if snd (handleDelivery queue env loopCtx clnt cb d) = None then 1 else 0)"
proof -
  obtain w x where ex: "extractExpiredHeader clnt d = (w, x)" by fastforce
  have w: "filter counts w = []" "filter settles w = []"
    using extractExpiredHeader_counts [of clnt d] ex by simp_all
  have h: "filter counts effs = []" "length (filter settles effs) = (if p = None then 1 else 0)"
    if "handleConsumerError (failJobHandler queue) env clnt d x e = (effs, p)" for e effs p
    using handleConsumerError_counts [of "failJobHandler queue" env clnt d x e] that by simp_all
  note defs = handleDelivery_def invokeHandler_def settling_defs
  show ?thesis
    using w by (auto simp: defs ex Let_def split: option.splits outcome.splits prod.splits dest: h)
qed

text \<open>
  C12. Whatever the handlers do, panics included, a delivery raises the in-flight counter once,
  first, and lowers it once, last: \<open>Shutdown\<close> neither misses a handler that is still running
  nor waits for one that is gone.
\<close>

theorem handleDelivery_inflight_balanced:
  "\<exists>mid. fst (handleDelivery queue env loopCtx clnt cb d) = InflightAdd # mid @ [InflightDone] \<and>
     InflightAdd \<notin> set mid \<and> InflightDone \<notin> set mid"
proof -
  obtain mid where m: "fst (handleDelivery queue env loopCtx clnt cb d) = InflightAdd # mid @ [InflightDone]"
    "filter counts mid = []"
    using handleDelivery_shape [of queue env loopCtx clnt cb d] by blast
  have "InflightAdd \<notin> set mid" "InflightDone \<notin> set mid"
    using m(2) by (auto simp: filter_empty_conv)
  then show ?thesis using m(1) by blast
qed

text \<open>
  C11. A delivery is settled at most once, and exactly once unless a panic of the extractor or
  of the fail handler leaves \<open>handleDelivery\<close>; then it is not settled at all, and the broker
  redelivers it when the connection goes.
\<close>

theorem handleDelivery_settles_once:
  "length (filter settles (fst (handleDelivery queue env loopCtx clnt cb d))) =
     (if snd (handleDelivery queue env loopCtx clnt cb d) = None then 1 else 0)"
  using handleDelivery_shape [of queue env loopCtx clnt cb d] by auto

lemma verdict_until_deadline:
  assumes "withRetry clnt" and "header_string (delivery_Headers d) ''expired'' = Some (expired_stamp t0 b)"
    and "four_digit_year (time_add t0 b)"
    and "handler_result env cb ctx (delivery_Body d) = Returned (Some e)" and "IsRetryable (Some e)"
  shows "(time_add t0 b < env_now env \<longrightarrow>
       delivery_verdict env clnt cb ctx d =
         Fail \<lparr>job_Queue = queueName clnt, job_Body = delivery_Body d, job_Err = Some e\<rparr>) \<and>
     (time_add (env_now env) second \<le> time_add t0 b \<longrightarrow> delivery_verdict env clnt cb ctx d = DeadLetter)"
proof -
  have "deadline_passed (env_now env) (delivery_Headers d) \<longleftrightarrow> isExpired (env_now env) (expired_stamp t0 b)"
    using assms(2) by (auto simp: deadline_passed_def expired_stamp_def format_rfc3339_not_nil)
  then show ?thesis
    using assms rfc3339.not_late [OF assms(3)] rfc3339.not_early [OF assms(3)]
    by (auto simp: delivery_verdict_def expired_stamp_def)
qed

text \<open>
  C8. The retry deadline from end to end: a message stamped at \<open>t0\<close> with budget \<open>b\<close>,
  whose handler returns a retryable error, is handed to the fail handler and acked at any time
  past \<open>t0 + b\<close>, and rejected to the delay queue, the fail handler not called, at any time a
  second or more before.
\<close>

theorem retry_until_deadline:
  assumes "ConsumeHeadersExtractor clnt = Some extract"
    and "extract loopCtx (amqpTableToMap (delivery_Headers d)) = Returned ctx" "fail_ready (failJobHandler queue) clnt"
    and "withRetry clnt" and "header_string (delivery_Headers d) ''expired'' = Some (expired_stamp t0 b)"
    and "four_digit_year (time_add t0 b)"
    and "handler_result env cb ctx (delivery_Body d) = Returned (Some e)" and "IsRetryable (Some e)"
  shows "(time_add t0 b < env_now env \<longrightarrow>
       filter visible (fst (handleDelivery queue env loopCtx clnt cb d)) =
         [Extract loopCtx (amqpTableToMap (delivery_Headers d)), Handle ctx (delivery_Body d),
          FailJob \<lparr>job_Queue = queueName clnt, job_Body = delivery_Body d, job_Err = Some e\<rparr>, Settle (Ack False)]) \<and>
     (time_add (env_now env) second \<le> time_add t0 b \<longrightarrow>
       filter visible (fst (handleDelivery queue env loopCtx clnt cb d)) =
         [Extract loopCtx (amqpTableToMap (delivery_Headers d)), Handle ctx (delivery_Body d), Settle (Reject False)])"
  using handleDelivery_visible [OF assms(1-3), of env cb] verdict_until_deadline [OF assms(4-8)] by auto

definition stamped_delivery :: amqp_delivery where
  "stamped_delivery =
     \<lparr>delivery_Headers = Some [(''expired'', HString (expired_stamp (Time (1709210096 * second)) (3600 * second)))],
      delivery_Body = [1, 2]\<rparr>"

lemma stamped_delivery_facts:
  "withRetry sample_client"
  "header_string (delivery_Headers stamped_delivery) ''expired'' =
     Some (expired_stamp (Time (1709210096 * second)) (3600 * second))"
  "four_digit_year (time_add (Time (1709210096 * second)) (3600 * second))"
  by (simp_all add: withRetry_def sample_client_def header_string_def stamped_delivery_def gm_get_def
      four_digit_year_def unix_secs_def time_add_def second_def)

theorem retry_until_deadline_witness:
  "settles (last (filter visible (fst (handleDelivery sample_store (sample_env\<lparr>env_now := Time (1709213700 * second)\<rparr>) 5 sample_client
     (Some (\<lambda>_ _ _. Returned (Some (RetryableError None)))) stamped_delivery)))) \<and>
   last (filter visible (fst (handleDelivery sample_store sample_env 5 sample_client
     (Some (\<lambda>_ _ _. Returned (Some (RetryableError None)))) stamped_delivery))) = Settle (Reject False)"
proof -
  have h: "handler_result env (Some (\<lambda>_ _ _. Returned (Some (RetryableError None)))) 5
      (delivery_Body stamped_delivery) = Returned (Some (RetryableError None))" for env
    by (simp add: handler_result_def)
  have x: "ConsumeHeadersExtractor sample_client = Some (\<lambda>parent _. Returned parent)"
      "fail_ready (failJobHandler sample_store) sample_client"
    by (simp_all add: sample_client_def sample_store_def fail_ready_def)
  show ?thesis
    using retry_until_deadline [OF x(1) refl x(2) stamped_delivery_facts h, of "sample_env\<lparr>env_now := Time (1709213700 * second)\<rparr>"]
      retry_until_deadline [OF x(1) refl x(2) stamped_delivery_facts h, of sample_env]
    by (simp add: sample_env_def time_add_def second_def less_gotime_def less_eq_gotime_def)
qed

text \<open>
  A handler that panics is outside the deadline: in retry mode, however long ago the
  deadline passed, the message is nacked without requeue (so it is dead-lettered into the delay
  queue once more) and never reaches the fail handler.
\<close>

theorem panic_ignores_deadline:
  assumes "ConsumeHeadersExtractor clnt = Some extract"
    and "extract loopCtx (amqpTableToMap (delivery_Headers d)) = Returned ctx"
    and "withRetry clnt" and "deadline_passed (env_now env) (delivery_Headers d)"
    and "handler_result env cb ctx (delivery_Body d) = Panicked p"
  shows "Settle (Nack False False) \<in> set (fst (handleDelivery queue env loopCtx clnt cb d)) \<and>
    (\<forall>job. FailJob job \<notin> set (fst (handleDelivery queue env loopCtx clnt cb d)))"
proof -
  obtain w x where ex: "extractExpiredHeader clnt d = (w, x)" by fastforce
  have "filter visible w = []" using extractExpiredHeader_silent [of clnt d] ex by simp
  then have "\<forall>job. FailJob job \<notin> set w" by (auto simp: filter_empty_conv)
  then show ?thesis using assms ex
    by (auto simp: handleDelivery_def invokeHandler_result settling_defs settle_def split: option.splits)
qed

theorem panic_ignores_deadline_witness:
  "deadline_passed (env_now sample_env) (delivery_Headers sample_delivery) \<and>
   Settle (Nack False False) \<in>
     set (fst (handleDelivery sample_store sample_env 5 sample_client (Some (\<lambda>_ _ _. Panicked ''boom'')) sample_delivery))"
proof -
  have d: "deadline_passed (env_now sample_env) (delivery_Headers sample_delivery)"
    by (simp add: deadline_passed_def header_string_def sample_delivery_def gm_get_def)
  then show ?thesis
    using panic_ignores_deadline [of sample_client "\<lambda>parent _. Returned parent" 5 sample_delivery 5 sample_env
        "Some (\<lambda>_ _ _. Panicked ''boom'')" "''boom''" sample_store]
    by (simp add: sample_client_def withRetry_def handler_result_def)
qed

end
