(* ===== verification/Otel.thy ===== *)
theory Otel
  imports Delivery
begin

text \<open>
  \<open>otel/propagation.go\<close>: the ready-made headers builder and headers extractor. The
  OpenTelemetry API is not part of the repository: its \<open>TextMapPropagator\<close>, the methods of its
  \<open>MapCarrier\<close> and the composite of no propagators are parameters, and \<open>carrier_laws\<close> says
  what the code relies on. The user's two functions may panic, like every callback.
\<close>

section \<open>Parameters\<close>

type_synonym carrier = "(string, string) gomap"

record 'c propagator =
  Inject :: "'c \<Rightarrow> carrier \<Rightarrow> carrier outcome"
  Extract_of :: "'c \<Rightarrow> carrier \<Rightarrow> 'c outcome"

record 'c otel_api =
  carrier_get :: "carrier \<Rightarrow> string \<Rightarrow> string"
  carrier_set :: "string \<Rightarrow> string \<Rightarrow> carrier \<Rightarrow> carrier"
  composite :: "'c propagator" \<comment> \<open>\<open>NewCompositeTextMapPropagator()\<close>\<close>

text \<open>A carrier is a map of strings; \<open>Get\<close> gives the empty string for an absent key.\<close>

definition carrier_laws :: "'c otel_api \<Rightarrow> bool" where
  "carrier_laws api \<longleftrightarrow>
     (\<forall>k. carrier_get api gm_make k = []) \<and>
     (\<forall>c k v. c \<noteq> None \<longrightarrow> carrier_get api (carrier_set api k v c) = (carrier_get api c)(k := v)) \<and>
     (\<forall>c k v. c \<noteq> None \<longrightarrow> carrier_set api k v c \<noteq> None \<and> gm_len (carrier_set api k v c) \<noteq> 0)"

section \<open>The helpers\<close>

record 'c propagation_config =
  CorrelationIDKey :: string
  TraceKeys :: "string list"
  GetCorrelationID :: "('c \<Rightarrow> string outcome) option"
  SetCorrelationID :: "('c \<Rightarrow> string \<Rightarrow> 'c outcome) option"
  Propagator :: "'c propagator option"

fun and_then :: "'a outcome \<Rightarrow> ('a \<Rightarrow> 'b outcome) \<Rightarrow> 'b outcome" where
  "and_then (Returned x) f = f x"
| "and_then (Panicked p) f = Panicked p"

definition the_propagator :: "'c otel_api \<Rightarrow> 'c propagation_config \<Rightarrow> 'c propagator" where
  "the_propagator api cfg = (case Propagator cfg of None \<Rightarrow> composite api | Some p \<Rightarrow> p)"

definition correlation_header :: "'c propagation_config \<Rightarrow> 'c \<Rightarrow> headers \<Rightarrow> headers outcome" where
  "correlation_header cfg ctx headers =
     (case GetCorrelationID cfg of
        Some get \<Rightarrow>
          if CorrelationIDKey cfg \<noteq> [] then
            and_then (get ctx) (\<lambda>v. Returned (if v \<noteq> [] then gm_put (CorrelationIDKey cfg) (HString v) headers else headers))
          else Returned headers
      | None \<Rightarrow> Returned headers)"

definition trace_headers :: "'c otel_api \<Rightarrow> string list \<Rightarrow> carrier \<Rightarrow> headers \<Rightarrow> headers" where
  "trace_headers api keys carrier headers =
     foldl (\<lambda>h key. let v = carrier_get api carrier key in if v \<noteq> [] then gm_put key (HString v) h else h) headers keys"

definition NewPublishHeadersBuilder :: "'c otel_api \<Rightarrow> 'c propagation_config \<Rightarrow> 'c publish_headers_builder" where
  "NewPublishHeadersBuilder api cfg =
     (let propagator = the_propagator api cfg in
      (\<lambda>ctx.
        and_then (correlation_header cfg ctx gm_make) (\<lambda>headers.
          if TraceKeys cfg = [] then Returned headers
          else
            and_then (Inject propagator ctx gm_make) (\<lambda>carrier.
              Returned (trace_headers api (TraceKeys cfg) carrier headers)))))"

definition restore_correlation :: "'c propagation_config \<Rightarrow> 'c \<Rightarrow> headers \<Rightarrow> 'c outcome" where
  "restore_correlation cfg ctx headers =
     (case SetCorrelationID cfg of
        Some set_id \<Rightarrow>
          if CorrelationIDKey cfg \<noteq> [] then
            (case header_string headers (CorrelationIDKey cfg) of
               Some v \<Rightarrow> if v \<noteq> [] then set_id ctx v else Returned ctx
             | None \<Rightarrow> Returned ctx)
          else Returned ctx
      | None \<Rightarrow> Returned ctx)"

definition trace_carrier :: "'c otel_api \<Rightarrow> string list \<Rightarrow> headers \<Rightarrow> carrier" where
  "trace_carrier api keys headers =
     foldl (\<lambda>c key. case header_string headers key of
         Some v \<Rightarrow> if v \<noteq> [] then carrier_set api key v c else c
       | None \<Rightarrow> c) gm_make keys"

definition NewConsumeHeadersExtractor :: "'c otel_api \<Rightarrow> 'c propagation_config \<Rightarrow> 'c consume_headers_extractor" where
  "NewConsumeHeadersExtractor api cfg =
     (let propagator = the_propagator api cfg in
      (\<lambda>parent headers.
        and_then (restore_correlation cfg parent headers) (\<lambda>ctx.
          if TraceKeys cfg = [] then Returned ctx
          else
            (let carrier = trace_carrier api (TraceKeys cfg) headers
             in if 0 < gm_len carrier then Extract_of propagator ctx carrier else Returned ctx))))"

section \<open>What travels\<close>

lemma gm_some [simp]: "(\<exists>y. gm_put k v m = Some y) \<longleftrightarrow> m \<noteq> None" "\<exists>y. gm_make = Some y"
  by (auto simp: gm_put_def gm_set_def gm_make_def split: option.splits)

lemma trace_headers_get:
  "headers \<noteq> None \<Longrightarrow> trace_headers api keys carrier headers \<noteq> None \<and>
     gm_get (trace_headers api keys carrier headers) k =
       (if k \<in> set keys \<and> carrier_get api carrier k \<noteq> [] then Some (HString (carrier_get api carrier k))
        else gm_get headers k)"
  unfolding trace_headers_def
proof (induction keys arbitrary: headers)
  case (Cons key keys)
  let ?h = "if carrier_get api carrier key \<noteq> [] then gm_put key (HString (carrier_get api carrier key)) headers else headers"
  have nn: "?h \<noteq> None" using Cons.prems by simp
  show ?case
    using Cons.IH [OF nn] Cons.prems by (cases "carrier_get api carrier key = []") (auto simp: Let_def gm_put_get)
qed simp

definition sent_value :: "headers \<Rightarrow> string \<Rightarrow> string" where
  "sent_value headers k = (case header_string headers k of Some v \<Rightarrow> v | None \<Rightarrow> [])"

lemma trace_carrier_get:
  assumes "carrier_laws api"
  shows "carrier_get api (trace_carrier api keys headers) k = (if k \<in> set keys then sent_value headers k else []) \<and>
    (gm_len (trace_carrier api keys headers) = 0 \<longleftrightarrow> (\<forall>k \<in> set keys. sent_value headers k = []))"
proof -
  let ?step = "\<lambda>c key. case header_string headers key of
      Some v \<Rightarrow> if v \<noteq> [] then carrier_set api key v c else c | None \<Rightarrow> c"
  have step: "?step c key = (if sent_value headers key \<noteq> [] then carrier_set api key (sent_value headers key) c else c)" for c key
    by (simp add: sent_value_def split: option.splits)
  have "foldl ?step c keys \<noteq> None \<and>
      carrier_get api (foldl ?step c keys) k =
        (if k \<in> set keys \<and> sent_value headers k \<noteq> [] then sent_value headers k else carrier_get api c k) \<and>
      (gm_len (foldl ?step c keys) = 0 \<longleftrightarrow> (if \<forall>k \<in> set keys. sent_value headers k = [] then gm_len c = 0 else False))"
    if "c \<noteq> None" for c
    using that
  proof (induction keys arbitrary: c)
    case (Cons key keys)
    have nn: "?step c key \<noteq> None" using Cons.prems assms by (simp add: step carrier_laws_def)
    show ?case
      using Cons.IH [OF nn] Cons.prems assms unfolding step
      by (cases "sent_value headers key = []") (auto simp: carrier_laws_def split: if_splits)
  qed simp
  from this [of gm_make] show ?thesis
    using assms by (auto simp: trace_carrier_def carrier_laws_def gm_make_def)
qed

section \<open>Properties\<close>

lemma correlation_header_value:
  assumes "correlation_header cfg ctx gm_make = Returned h"
  shows "h \<noteq> None \<and>
    gm_get h k =
      (case GetCorrelationID cfg of
         Some get \<Rightarrow> (case get ctx of
             Returned v \<Rightarrow> if k = CorrelationIDKey cfg \<and> k \<noteq> [] \<and> v \<noteq> [] then Some (HString v) else None
           | Panicked _ \<Rightarrow> None)
       | None \<Rightarrow> None)"
proof (cases "GetCorrelationID cfg")
  case (Some get)
  then show ?thesis using assms
    by (cases "get ctx") (auto simp: correlation_header_def gm_put_get split: if_splits)
qed (use assms in \<open>simp add: correlation_header_def\<close>)

text \<open>
  What the builder writes. When the user's functions return, it returns a map, never nil,
  with exactly these entries: every trace key the propagator gave a non-empty value, with that
  value, and the correlation ID under its key unless it is empty, off or shadowed by a trace
  key of the same name.
\<close>

theorem builder_headers:
  assumes "NewPublishHeadersBuilder api cfg ctx = Returned h" "GetCorrelationID cfg = Some get" "get ctx = Returned v"
    and "TraceKeys cfg \<noteq> []" "Inject (the_propagator api cfg) ctx gm_make = Returned carrier"
  shows "h \<noteq> None \<and>
    gm_get h k =
      (if k \<in> set (TraceKeys cfg) \<and> carrier_get api carrier k \<noteq> [] then Some (HString (carrier_get api carrier k))
       else if k = CorrelationIDKey cfg \<and> k \<noteq> [] \<and> v \<noteq> [] then Some (HString v) else None)"
proof -
  obtain h0 where h0: "correlation_header cfg ctx gm_make = Returned h0"
    using assms(2,3) by (cases "CorrelationIDKey cfg = []") (auto simp: correlation_header_def)
  have "h = trace_headers api (TraceKeys cfg) carrier h0"
    using assms(1,4,5) h0 by (simp add: NewPublishHeadersBuilder_def Let_def)
  moreover have nn: "h0 \<noteq> None" using correlation_header_value [OF h0] by blast
  ultimately show ?thesis
    using trace_headers_get [OF nn, of api "TraceKeys cfg" carrier k] correlation_header_value [OF h0, of k] assms(2,3)
    by (cases "k = CorrelationIDKey cfg") auto
qed

text \<open>An instance of the parameters: carriers as maps, one trace header, contexts that are pairs.\<close>

definition map_api :: "(string \<times> string) otel_api" where
  "map_api =
     \<lparr>carrier_get = (\<lambda>c k. case gm_get c k of None \<Rightarrow> [] | Some v \<Rightarrow> v), carrier_set = gm_put,
      composite = \<lparr>Inject = (\<lambda>_ c. Returned c), Extract_of = (\<lambda>ctx _. Returned ctx)\<rparr>\<rparr>"

definition pair_config :: "(string \<times> string) propagation_config" where
  "pair_config =
     \<lparr>CorrelationIDKey = ''x-correlation-id'', TraceKeys = [''traceparent''],
      GetCorrelationID = Some (\<lambda>ctx. Returned (fst ctx)),
      SetCorrelationID = Some (\<lambda>ctx v. Returned (v, snd ctx)),
      Propagator = Some \<lparr>Inject = (\<lambda>ctx c. Returned (gm_put ''traceparent'' (snd ctx) c)),
        Extract_of = (\<lambda>ctx c. Returned (fst ctx, case gm_get c ''traceparent'' of None \<Rightarrow> [] | Some v \<Rightarrow> v))\<rparr>\<rparr>"

lemma map_api_laws: "carrier_laws map_api"
proof -
  have "gm_put k v c \<noteq> None \<and> gm_entries (gm_put k v c) \<noteq> []" if "c \<noteq> None" for k v and c :: carrier
    using that gm_put_get [OF that, of k v] by (auto simp: gm_get_def dest: fun_cong [of _ _ k])
  then show ?thesis by (auto simp: carrier_laws_def map_api_def gm_put_get fun_eq_iff)
qed

definition pair_headers :: headers where
  "pair_headers = Some [(''x-correlation-id'', HString ''id-1''), (''traceparent'', HString ''00-ab'')]"

lemma pair_built: "NewPublishHeadersBuilder map_api pair_config (''id-1'', ''00-ab'') = Returned pair_headers"
  by (simp add: NewPublishHeadersBuilder_def correlation_header_def trace_headers_def map_api_def pair_config_def
      the_propagator_def gm_put_def gm_set_def gm_make_def gm_get_def pair_headers_def)

theorem builder_headers_witness:
  "gm_get pair_headers ''traceparent'' = Some (HString ''00-ab'') \<and> gm_get pair_headers ''other'' = None"
  using builder_headers [OF pair_built, of "\<lambda>ctx. Returned (fst ctx)" "''id-1''" "gm_put ''traceparent'' ''00-ab'' gm_make" "''traceparent''"]
    builder_headers [OF pair_built, of "\<lambda>ctx. Returned (fst ctx)" "''id-1''" "gm_put ''traceparent'' ''00-ab'' gm_make" "''other''"]
  by (simp add: pair_config_def map_api_def the_propagator_def gm_put_get)

text \<open>
  C15. Context propagation is a round trip. When the headers of a delivery carry what the builder
  wrote under the keys of the configuration (whatever else they hold), the extractor sets the
  sender's correlation ID on the consumer's context, and hands the propagator a carrier that
  reads, for every configured trace key, what the sender's propagator injected, and nothing for
  any other key; the propagator is not called at all when there is nothing to read.
\<close>

theorem propagation_roundtrip:
  assumes "carrier_laws api" "NewPublishHeadersBuilder api cfg ctx = Returned h"
    and "GetCorrelationID cfg = Some get" "get ctx = Returned v" "v \<noteq> []"
    and "CorrelationIDKey cfg \<noteq> []" "CorrelationIDKey cfg \<notin> set (TraceKeys cfg)"
    and "SetCorrelationID cfg = Some set_id" "set_id parent v = Returned ctx1"
    and "TraceKeys cfg \<noteq> []" "Inject (the_propagator api cfg) ctx gm_make = Returned carrier"
    and "\<And>k. k \<in> set (CorrelationIDKey cfg # TraceKeys cfg) \<Longrightarrow> gm_get h' k = gm_get h k"
  shows "\<exists>received. (\<forall>k. carrier_get api received k = (if k \<in> set (TraceKeys cfg) then carrier_get api carrier k else [])) \<and>
    NewConsumeHeadersExtractor api cfg parent h' =
      (if \<forall>k \<in> set (TraceKeys cfg). carrier_get api carrier k = [] then Returned ctx1
       else Extract_of (the_propagator api cfg) ctx1 received)"
proof -
  let ?r = "trace_carrier api (TraceKeys cfg) h'"
  obtain h0 where h0: "correlation_header cfg ctx gm_make = Returned h0"
    using assms(3,4) by (cases "CorrelationIDKey cfg = []") (auto simp: correlation_header_def)
  have h: "h = trace_headers api (TraceKeys cfg) carrier h0"
    using assms(2,10,11) h0 by (simp add: NewPublishHeadersBuilder_def Let_def)
  have nn: "h0 \<noteq> None" using correlation_header_value [OF h0] by blast
  have get: "gm_get h k =
      (if k \<in> set (TraceKeys cfg) \<and> carrier_get api carrier k \<noteq> [] then Some (HString (carrier_get api carrier k))
       else if k = CorrelationIDKey cfg then Some (HString v) else None)" for k
    using trace_headers_get [OF nn, of api "TraceKeys cfg" carrier k] correlation_header_value [OF h0, of k] assms(3-6)
    unfolding h by (cases "k = CorrelationIDKey cfg") auto
  have id: "header_string h' (CorrelationIDKey cfg) = Some v"
    using assms(7,12) get by (simp add: header_string_def)
  have sent: "sent_value h' k = carrier_get api carrier k" if "k \<in> set (TraceKeys cfg)" for k
    using assms(7,12) get that by (auto simp: sent_value_def header_string_def)
  have "restore_correlation cfg parent h' = Returned ctx1"
    using assms(5,6,8,9) by (simp add: restore_correlation_def id)
  then have "NewConsumeHeadersExtractor api cfg parent h' =
      (if gm_len ?r = 0 then Returned ctx1 else Extract_of (the_propagator api cfg) ctx1 ?r)"
    using assms(10) by (simp add: NewConsumeHeadersExtractor_def Let_def del: gm_len_0)
  then show ?thesis
    using trace_carrier_get [OF assms(1), of "TraceKeys cfg" h'] sent by (intro exI [of _ ?r]) simp
qed

theorem propagation_roundtrip_witness:
  "NewConsumeHeadersExtractor map_api pair_config ([], []) (amqpTableToMap pair_headers) = Returned (''id-1'', ''00-ab'')"
proof -
  let ?carrier = "gm_put ''traceparent'' ''00-ab'' gm_make :: carrier"
  have k: "gm_get (amqpTableToMap pair_headers) k = gm_get pair_headers k" for k by (rule to_map.copy_get)
  have keys: "TraceKeys pair_config = [''traceparent'']" by (simp add: pair_config_def)
  have c: "carrier_get map_api ?carrier ''traceparent'' = ''00-ab''" by (simp add: map_api_def gm_put_get)
  have "\<exists>received. (\<forall>k. carrier_get map_api received k =
        (if k \<in> set (TraceKeys pair_config) then carrier_get map_api ?carrier k else [])) \<and>
      NewConsumeHeadersExtractor map_api pair_config ([], []) (amqpTableToMap pair_headers) =
        (if \<forall>k \<in> set (TraceKeys pair_config). carrier_get map_api ?carrier k = [] then Returned (''id-1'', [])
         else Extract_of (the_propagator map_api pair_config) (''id-1'', []) received)"
    by (rule propagation_roundtrip [OF map_api_laws pair_built, of "\<lambda>ctx. Returned (fst ctx)" "''id-1''"
          "\<lambda>ctx v. Returned (v, snd ctx)"]) (simp_all add: pair_config_def the_propagator_def k)
  then obtain received where all: "\<forall>k. carrier_get map_api received k =
        (if k \<in> set (TraceKeys pair_config) then carrier_get map_api ?carrier k else [])"
    and e: "NewConsumeHeadersExtractor map_api pair_config ([], []) (amqpTableToMap pair_headers) =
        (if \<forall>k \<in> set (TraceKeys pair_config). carrier_get map_api ?carrier k = [] then Returned (''id-1'', [])
         else Extract_of (the_propagator map_api pair_config) (''id-1'', []) received)" by blast
  have "carrier_get map_api received ''traceparent'' = ''00-ab''"
    using all [THEN spec, of "''traceparent''"] by (simp add: keys c)
  moreover have "NewConsumeHeadersExtractor map_api pair_config ([], []) (amqpTableToMap pair_headers) =
      Extract_of (the_propagator map_api pair_config) (''id-1'', []) received"
    using e by (simp add: keys c)
  ultimately show ?thesis by (simp add: pair_config_def map_api_def the_propagator_def)
qed

end
