(* ===== verification/MachineInv.thy ===== *)
theory MachineInv
  imports Machine
begin

text \<open>
  Invariants of the client machine: who holds \<open>pushMu\<close>, what \<open>isReady\<close> promises, what a
  returned \<open>push\<close> can report, and whose confirm a caller reads. Each is an interpretation of
  \<open>invariant_system\<close> on the machine, so it holds in every reachable state.
\<close>

named_theorems start_defs \<open>the initial state, unfolded\<close>

lemmas start_unfold [start_defs] =
  publisher_start_def machine_start_def newPublisherClient_def newClient_def

section \<open>The push mutex\<close>

fun holds_mutex :: "ppc \<Rightarrow> bool" where
  "holds_mutex (PPrepare _) = True"
| "holds_mutex (PSend _ _) = True"
| "holds_mutex (PEnterConfirm _ _) = True"
| "holds_mutex (PConfirm _ _) = True"
| "holds_mutex (PUnlock _ _) = True"
| "holds_mutex _ = False"

definition mutex_inv :: "'c world \<Rightarrow> bool" where
  "mutex_inv w \<longleftrightarrow> (\<forall>i. holds_mutex (w_push w i) \<longrightarrow> w_mutex w = Some i)"

lemma after_WaitReady_free [simp]: "\<not> holds_mutex (after_WaitReady clnt ctx r)"
  by (simp add: after_WaitReady_def split: option.splits outcome.splits)

lemma mutex_inv_unique: "mutex_inv w \<Longrightarrow> holds_mutex (w_push w i) \<Longrightarrow> holds_mutex (w_push w j) \<Longrightarrow> i = j"
  unfolding mutex_inv_def by (metis option.inject)

lemma mutex_inv_at:
  "mutex_inv w \<Longrightarrow> w_push v = (w_push w)(i := pc) \<Longrightarrow> w_mutex v = w_mutex w \<Longrightarrow>
     holds_mutex pc \<longrightarrow> holds_mutex (w_push w i) \<Longrightarrow> mutex_inv v"
  unfolding mutex_inv_def by (metis fun_upd_apply)

lemma mutex_inv_unlocked:
  "mutex_inv w \<Longrightarrow> w_push v = (w_push w)(i := pc) \<Longrightarrow> holds_mutex (w_push w i) \<Longrightarrow> \<not> holds_mutex pc \<Longrightarrow> mutex_inv v"
  unfolding mutex_inv_def by (metis fun_upd_apply option.inject)

lemma mutex_inv_locked:
  "mutex_inv w \<Longrightarrow> w_push v = (w_push w)(i := pc) \<Longrightarrow> w_mutex w = None \<Longrightarrow> w_mutex v = Some i \<Longrightarrow> mutex_inv v"
  unfolding mutex_inv_def by (metis fun_upd_apply option.distinct(1))

lemma mutex_inv_push:
  assumes "push_step w l v" "mutex_inv w"
  shows "mutex_inv v"
  using assms(1)
proof (cases rule: push_step.cases)
  case (p_locked i h)
  then show ?thesis by (intro mutex_inv_locked [OF assms(2), of _ i "PPrepare h"]) auto
next
  case (p_unlocked i h r)
  then show ?thesis
    by (intro mutex_inv_unlocked [OF assms(2), of _ i "if r = None then PReturned None else PRetryWait h"]) auto
qed (rule mutex_inv_at [OF assms(2)], simp, simp, simp split: sum.splits)+

lemma reconnect_frame:
  "reconnect_step w l v \<Longrightarrow>
     w_push v = w_push w \<and> w_mutex v = w_mutex w \<and> w_calls v = w_calls w \<and> w_sent v = w_sent w \<and>
     w_acked v = w_acked w \<and> w_confirms v = w_confirms w \<and> w_strayed v = w_strayed w \<and> w_ctxErr v = w_ctxErr w"
  by (erule reconnect_stepE) simp_all

lemma close_frame:
  "close_step w l v \<Longrightarrow>
     w_push v = w_push w \<and> w_mutex v = w_mutex w \<and> w_calls v = w_calls w \<and> w_sent v = w_sent w \<and>
     w_acked v = w_acked w \<and> w_confirms v = w_confirms w \<and> w_strayed v = w_strayed w \<and> w_ctxErr v = w_ctxErr w \<and>
     w_rpc v = w_rpc w \<and> ch (w_clnt v) = ch (w_clnt w) \<and> (isReady (w_clnt v) \<longrightarrow> isReady (w_clnt w)) \<and>
     startOnce (w_clnt v) = startOnce (w_clnt w) \<and> w_next v = w_next w \<and>
     notifyConfirm (w_clnt v) = notifyConfirm (w_clnt w)"
  by (erule close_stepE) simp_all

lemma env_frame:
  "env_step w l v \<Longrightarrow>
     w_push v = w_push w \<and> w_mutex v = w_mutex w \<and> w_calls v = w_calls w \<and> w_clnt v = w_clnt w \<and>
     w_rpc v = w_rpc w \<and> w_sent v = w_sent w \<and> w_strayed v = w_strayed w \<and> w_next v = w_next w"
  by (erule env_stepE) simp_all

lemma mutex_inv_step: "machine_step w l v \<Longrightarrow> mutex_inv w \<Longrightarrow> mutex_inv v"
  by (erule machine_stepE)
    (auto dest: reconnect_frame close_frame env_frame mutex_inv_push simp: mutex_inv_def)

lemma mutex_inv_start: "mutex_inv (publisher_start name item conf opts calls)"
  by (simp add: mutex_inv_def start_defs)

interpretation mutex: invariant_system "publisher_start name item conf opts calls" machine_step mutex_inv
  for name item conf opts calls
  by unfold_locales (blast intro: mutex_inv_start mutex_inv_step)+

section \<open>The ready flag\<close>

fun initializing :: "rpc \<Rightarrow> bool" where
  "initializing RUnstarted = True"
| "initializing (ROpen _) = True"
| "initializing (RAssign _ _) = True"
| "initializing (RDeclare _ _) = True"
| "initializing (RReady _) = True"
| "initializing (RInitFailed _) = True"
| "initializing _ = False"

definition ready_inv :: "'c world \<Rightarrow> bool" where
  "ready_inv w \<longleftrightarrow>
     (initializing (w_rpc w) \<longrightarrow> \<not> isReady (w_clnt w)) \<and>
     (isReady (w_clnt w) \<longrightarrow> ch (w_clnt w) \<noteq> None) \<and>
     (\<forall>c n. w_rpc w = RAssign c n \<or> w_rpc w = RDeclare c n \<longrightarrow> ch (w_clnt w) = Some n) \<and>
     (\<forall>c. w_rpc w = RReady c \<longrightarrow> ch (w_clnt w) \<noteq> None) \<and>
     (\<not> startOnce (w_clnt w) \<longrightarrow> w_rpc w = RUnstarted)"

lemma ready_inv_reconnect: "reconnect_step w l v \<Longrightarrow> ready_inv w \<Longrightarrow> ready_inv v"
  by (erule reconnect_stepE) (auto simp: ready_inv_def)

lemma ready_inv_push: "push_step w l v \<Longrightarrow> ready_inv w \<Longrightarrow> ready_inv v"
  by (erule push_stepE) (auto simp: ready_inv_def)

lemma ready_inv_close: "close_step w l v \<Longrightarrow> ready_inv w \<Longrightarrow> ready_inv v"
  by (drule close_frame) (auto simp: ready_inv_def)

lemma ready_inv_env: "env_step w l v \<Longrightarrow> ready_inv w \<Longrightarrow> ready_inv v"
  by (drule env_frame) (simp add: ready_inv_def)

lemma ready_inv_step: "machine_step w l v \<Longrightarrow> ready_inv w \<Longrightarrow> ready_inv v"
  by (erule machine_stepE)
    (blast intro: ready_inv_reconnect ready_inv_push ready_inv_close ready_inv_env)+

lemma ready_inv_start: "ready_inv (publisher_start name item conf opts calls)"
  by (simp add: ready_inv_def start_defs)

interpretation ready: invariant_system "publisher_start name item conf opts calls" machine_step ready_inv
  for name item conf opts calls
  by unfold_locales (blast intro: ready_inv_start ready_inv_step)+

section \<open>What a publish reports\<close>

text \<open>The errors \<open>push\<close> can return.\<close>

definition push_error :: "go_error \<Rightarrow> bool" where
  "push_error e \<longleftrightarrow>
     errors_is e ErrClientClosedBeforeReady \<or> errors_is e ErrDoneSignalBeforeAck \<or>
     errors_is e ErrContextCanceledBeforeAck \<or> (\<exists>c. errors_is_ctx e c)"

definition only_push_errors :: "go_error \<Rightarrow> bool" where
  "only_push_errors e \<longleftrightarrow>
     push_error e \<and>
     (\<forall>s. errors_is e s \<longrightarrow>
        s \<in> {ErrClientClosedBeforeReady, ErrDoneSignalBeforeAck, ErrContextCanceledBeforeAck})"

definition result_inv :: "'c world \<Rightarrow> bool" where
  "result_inv w \<longleftrightarrow> (\<forall>i e. w_push w i = PReturned (Some e) \<longrightarrow> only_push_errors e)"

lemma only_push_errors_waits:
  "Some e \<in> set (WaitReady clnt ctxErr) \<Longrightarrow> only_push_errors e"
  "Some e \<in> set (waitBeforePushRetry clnt ctxErr t) \<Longrightarrow> only_push_errors e"
  by (auto simp: WaitReady_results waitBeforePushRetry_results only_push_errors_def push_error_def)

lemma after_WaitReady_error: "after_WaitReady clnt ctx r = PReturned (Some e) \<Longrightarrow> r = Some e"
  by (simp add: after_WaitReady_def split: option.splits outcome.splits)

lemma result_inv_push: "push_step w l v \<Longrightarrow> result_inv w \<Longrightarrow> result_inv v"
  by (erule push_stepE)
    (auto simp: result_inv_def split: sum.splits if_splits
      dest!: after_WaitReady_error dest: only_push_errors_waits)

lemma result_inv_step: "machine_step w l v \<Longrightarrow> result_inv w \<Longrightarrow> result_inv v"
  by (erule machine_stepE)
    (auto dest: reconnect_frame close_frame env_frame result_inv_push simp: result_inv_def)

lemma result_inv_start: "result_inv (publisher_start name item conf opts calls)"
  by (simp add: result_inv_def start_defs)

interpretation result: invariant_system "publisher_start name item conf opts calls" machine_step result_inv
  for name item conf opts calls
  by unfold_locales (blast intro: result_inv_start result_inv_step)+

section \<open>An invalid priority\<close>

fun past_prepare :: "ppc \<Rightarrow> bool" where
  "past_prepare (PSend _ _) = True"
| "past_prepare (PEnterConfirm _ _) = True"
| "past_prepare (PConfirm _ _) = True"
| "past_prepare (PUnlock _ None) = True"
| "past_prepare (PReturned None) = True"
| "past_prepare _ = False"

definition bad_priority :: "'c world \<Rightarrow> nat \<Rightarrow> bool" where
  "bad_priority w i \<longleftrightarrow>
     (\<exists>p. msg_Priority (snd (w_calls w i)) = Some p \<and> maxPublishMessagePriority < p)"

definition priority_inv :: "'c world \<Rightarrow> bool" where
  "priority_inv w \<longleftrightarrow>
     (\<forall>i. bad_priority w i \<longrightarrow> \<not> past_prepare (w_push w i) \<and> (\<forall>c. i \<notin> set (w_sent w c)))"

lemma after_WaitReady_not_past [simp]: "\<not> past_prepare (after_WaitReady clnt ctx r)"
  by (simp add: after_WaitReady_def split: option.splits outcome.splits)

lemma priority_inv_push: "push_step w l v \<Longrightarrow> priority_inv w \<Longrightarrow> priority_inv v"
  by (erule push_stepE)
    (auto simp: priority_inv_def bad_priority_def prepare_invalid_priority split: sum.splits if_splits)

lemma priority_inv_step: "machine_step w l v \<Longrightarrow> priority_inv w \<Longrightarrow> priority_inv v"
  by (erule machine_stepE)
    (auto dest: reconnect_frame close_frame env_frame priority_inv_push
      simp: priority_inv_def bad_priority_def)

lemma priority_inv_start: "priority_inv (publisher_start name item conf opts calls)"
  by (simp add: priority_inv_def start_defs)

interpretation priority: invariant_system "publisher_start name item conf opts calls" machine_step priority_inv
  for name item conf opts calls
  by unfold_locales (blast intro: priority_inv_start priority_inv_step)+

section \<open>Where the reconnect loop rests\<close>

fun on_conn :: "rpc \<Rightarrow> conn_id option" where
  "on_conn (RInitTop c) = Some c"
| "on_conn (ROpen c) = Some c"
| "on_conn (RAssign c _) = Some c"
| "on_conn (RDeclare c _) = Some c"
| "on_conn (RReady c) = Some c"
| "on_conn (RCloseReady c) = Some c"
| "on_conn (RInitFailed c) = Some c"
| "on_conn (RWait c) = Some c"
| "on_conn _ = None"

fun channel_up :: "rpc \<Rightarrow> bool" where
  "channel_up (RDeclare _ _) = True"
| "channel_up (RReady _) = True"
| "channel_up (RCloseReady _) = True"
| "channel_up (RWait _) = True"
| "channel_up _ = False"

definition rest_inv :: "'c world \<Rightarrow> bool" where
  "rest_inv w \<longleftrightarrow>
     (w_rpc w = RDone \<longrightarrow> done_closed (w_clnt w)) \<and>
     (\<forall>c. on_conn (w_rpc w) = Some c \<longrightarrow> notifyConnClose (w_clnt w) = Some c) \<and>
     (channel_up (w_rpc w) \<longrightarrow> ch (w_clnt w) \<noteq> None \<and> notifyChanClose (w_clnt w) = ch (w_clnt w)) \<and>
     (\<forall>c n. w_rpc w = RAssign c n \<longrightarrow> ch (w_clnt w) = Some n) \<and>
     (\<forall>c. w_rpc w = RWait c \<longrightarrow> ready_closed (w_clnt w)) \<and>
     (w_rpc w \<noteq> RUnstarted \<longrightarrow> startOnce (w_clnt w))"

lemma rest_inv_reconnect: "reconnect_step w l v \<Longrightarrow> rest_inv w \<Longrightarrow> rest_inv v"
  by (erule reconnect_stepE) (simp_all add: rest_inv_def)

lemma rest_inv_push: "push_step w l v \<Longrightarrow> rest_inv w \<Longrightarrow> rest_inv v"
  by (erule push_stepE) (simp_all add: rest_inv_def)

lemma rest_inv_close: "close_step w l v \<Longrightarrow> rest_inv w \<Longrightarrow> rest_inv v"
  by (erule close_stepE) (simp_all add: rest_inv_def)

lemma rest_inv_env: "env_step w l v \<Longrightarrow> rest_inv w \<Longrightarrow> rest_inv v"
  by (drule env_frame) (simp add: rest_inv_def)

lemma rest_inv_step: "machine_step w l v \<Longrightarrow> rest_inv w \<Longrightarrow> rest_inv v"
  by (erule machine_stepE)
    (blast intro: rest_inv_reconnect rest_inv_push rest_inv_close rest_inv_env)+

lemma rest_inv_start: "rest_inv (publisher_start name item conf opts calls)"
  by (simp add: rest_inv_def start_defs)

interpretation rest: invariant_system "publisher_start name item conf opts calls" machine_step rest_inv
  for name item conf opts calls
  by unfold_locales (blast intro: rest_inv_start rest_inv_step)+

text \<open>In every other place the loop can move on by itself.\<close>

lemma stuck_places:
  assumes "\<And>l v. \<not> reconnect_step w l v"
  shows "w_rpc w = RUnstarted \<or> w_rpc w = RDone \<or>
    (\<exists>c. w_rpc w = RWait c \<and> \<not> done_closed (w_clnt w) \<and> \<not> conn_closed_notified w \<and> \<not> chan_closed_notified w)"
proof (cases "w_rpc w")
  case RTop then show ?thesis using assms r_store0 by blast
next
  case RDial then show ?thesis using assms r_dial_fail by blast
next
  case RDialWait then show ?thesis using assms r_dial_timer by blast
next
  case (RInitTop c) then show ?thesis using assms r_init_store0 by blast
next
  case (ROpen c) then show ?thesis using assms r_open_fail by blast
next
  case (RAssign c n) then show ?thesis using assms r_notify by blast
next
  case (RDeclare c n) then show ?thesis using assms r_declare_ok by blast
next
  case (RReady c) then show ?thesis using assms r_store1 by blast
next
  case (RCloseReady c) then show ?thesis using assms r_ready_closed by blast
next
  case (RInitFailed c) then show ?thesis using assms r_failed_timer by blast
next
  case (RWait c) then show ?thesis using assms r_wait_done r_wait_conn r_wait_chan by blast
qed simp_all

end
