(* ===== verification/ConsumerLoop.thy ===== *)
theory ConsumerLoop
  imports Delivery
begin

text \<open>
  \<open>consumer_loop.go\<close> and \<open>consume\<close> of client.go: one consumer's loop. What the loop
  observes at each point (which channel woke a \<open>select\<close>, what \<open>isReady\<close> held, what
  the AMQP library answered) is a script, one \<open>iteration\<close> per turn of the loop; what it
  does is a list of \<open>loop_event\<close>s. A script that ends before the loop does leaves it
  running.
\<close>

section \<open>Backoff\<close>

definition maxConsumerBackoff :: duration where "maxConsumerBackoff = 30 * second"
definition initialConsumerDelay :: duration where "initialConsumerDelay = second"
definition consumerBackoffFactor :: int where "consumerBackoffFactor = 2"

lemmas backoff_consts = maxConsumerBackoff_def initialConsumerDelay_def consumerBackoffFactor_def second_def

definition nextConsumerBackoff :: "duration \<Rightarrow> duration" where
  "nextConsumerBackoff current =
     (let n = int64 (current * consumerBackoffFactor)
      in if maxConsumerBackoff < n then maxConsumerBackoff else n)"

text \<open>The delay of the k-th wait.\<close>

definition backoff_at :: "nat \<Rightarrow> duration" where
  "backoff_at k = min (2 ^ k * second) maxConsumerBackoff"

lemma nextConsumerBackoff_double:
  "0 < d \<Longrightarrow> d \<le> maxConsumerBackoff \<Longrightarrow> nextConsumerBackoff d = min (2 * d) maxConsumerBackoff"
  by (simp add: nextConsumerBackoff_def backoff_consts in_int64_def min_def Let_def)

lemma backoff_at_bounds: "second \<le> backoff_at k \<and> backoff_at k \<le> maxConsumerBackoff"
  by (auto simp: backoff_at_def backoff_consts min_def)

lemma backoff_at_Suc: "nextConsumerBackoff (backoff_at k) = backoff_at (Suc k)"
proof -
  have "0 < backoff_at k" using backoff_at_bounds [of k] by (simp add: second_def)
  then have "nextConsumerBackoff (backoff_at k) = min (2 * backoff_at k) maxConsumerBackoff"
    using backoff_at_bounds [of k] by (simp add: nextConsumerBackoff_double)
  also have "\<dots> = backoff_at (Suc k)" by (auto simp: backoff_at_def backoff_consts min_def)
  finally show ?thesis .
qed

lemma backoff_at_0: "backoff_at 0 = initialConsumerDelay"
  by (simp add: backoff_at_def backoff_consts)

section \<open>Waits\<close>

text \<open>Which branch of a wait's \<open>select\<close> was taken.\<close>

datatype wake = WakeDone | WakeClientDone | WakeTimer

text \<open>One turn of \<open>for clnt.isReady.Load() == 0\<close>.\<close>

datatype ready_obs = IsReady | NotReady wake

text \<open>
  \<open>waitUntilClientReady\<close>: the delays it slept, the delay it returns (0 to stop), the rest of
  the script; \<open>None\<close> while it is still waiting.
\<close>

fun waitUntilClientReady :: "ready_obs list \<Rightarrow> duration \<Rightarrow> duration list \<times> duration option" where
  "waitUntilClientReady [] d = ([], None)"
| "waitUntilClientReady (IsReady # os) d = ([], Some initialConsumerDelay)"
| "waitUntilClientReady (NotReady WakeDone # os) d = ([], Some 0)"
| "waitUntilClientReady (NotReady WakeClientDone # os) d = ([], Some 0)"
| "waitUntilClientReady (NotReady WakeTimer # os) d =
     (let (sl, r) = waitUntilClientReady os (nextConsumerBackoff d) in (d # sl, r))"

definition sleepConsumerBackoff :: "wake \<Rightarrow> duration \<Rightarrow> duration" where
  "sleepConsumerBackoff w d = (case w of WakeTimer \<Rightarrow> nextConsumerBackoff d | _ \<Rightarrow> 0)"

lemma waitUntilClientReady_result:
  "snd (waitUntilClientReady os d) = Some r \<Longrightarrow> r = 0 \<or> r = initialConsumerDelay"
  by (induction os d rule: waitUntilClientReady.induct) (auto split: prod.splits)

lemma waitUntilClientReady_sleeps:
  "d = backoff_at k \<Longrightarrow>
     fst (waitUntilClientReady os d) =
       map backoff_at [k..<k + length (fst (waitUntilClientReady os d))]"
proof (induction os d arbitrary: k rule: waitUntilClientReady.induct)
  case (5 os d)
  then have "nextConsumerBackoff d = backoff_at (Suc k)" by (simp add: backoff_at_Suc)
  from 5(1) [OF this] show ?case
    using 5(2) by (simp add: split_beta upt_conv_Cons del: upt_Suc)
qed simp_all

section \<open>Subscribing\<close>

text \<open>
  \<open>consume\<close>: what it reads of the client (\<open>isReady\<close>, then \<open>ch\<close>) may change
  between the reads, so both are arguments, with the library's answer.
\<close>

definition consume :: "bool \<Rightarrow> chan_id option \<Rightarrow> queue_name \<Rightarrow> go_error option \<Rightarrow> panic + go_error option" where
  "consume rdy chan name answer =
     (if \<not> rdy then Inr (Some (Errorf ''%w %s'' [name] [Sentinel ErrConsumeQueueConnectionClosed]))
      else if chan = None then Inl NilChannel
      else (case answer of
          Some err \<Rightarrow> Inr (Some (Errorf ''%w %s: %w'' [name] [Sentinel ErrStartingQueueConsumption, err]))
        | None \<Rightarrow> Inr None))"

section \<open>The loop\<close>

datatype 'c loop_event =
    WaitSleep duration \<comment> \<open>slept in \<open>waitUntilClientReady\<close>\<close>
  | Subscribe "go_error option" \<comment> \<open>\<open>consume\<close> and its error\<close>
  | RetrySleep duration \<comment> \<open>slept in \<open>sleepConsumerBackoff\<close>\<close>
  | WatchClose chan_id \<comment> \<open>\<open>NotifyClose\<close> registered\<close>
  | Delivered "'c effect list"
  | CloseClient
  | LoopLog log_level string "log_arg list"

definition logChannelClosed :: "queue_name \<Rightarrow> go_error option \<Rightarrow> 'c loop_event list" where
  "logChannelClosed name amqErr =
     (case amqErr of
        Some e \<Rightarrow> [LoopLog Warn (''channel for queue '' @ name @ '' was closed'') [LogErr e]]
      | None \<Rightarrow> [LoopLog Warn (''channel for queue '' @ name @ '' was closed'') []])"

text \<open>Which branch the \<open>select\<close> of \<open>processDeliveries\<close> took.\<close>

datatype delivery_event =
    EvDone
  | EvChannelClosed "go_error option"
  | EvDelivery amqp_delivery delivery_env
  | EvDeliveriesClosed

datatype stop = Stop bool | Crash panic | Waiting

fun processEvents ::
  "'c queueStore \<Rightarrow> 'c \<Rightarrow> 'c client \<Rightarrow> delivery_event list \<Rightarrow> 'c loop_event list \<times> stop" where
  "processEvents queue loopCtx clnt [] = ([], Waiting)"
| "processEvents queue loopCtx clnt (EvDone # es) = ([CloseClient], Stop False)"
| "processEvents queue loopCtx clnt (EvChannelClosed amqErr # es) =
     (logChannelClosed (queueName clnt) amqErr, Stop True)"
| "processEvents queue loopCtx clnt (EvDeliveriesClosed # es) =
     ([LoopLog Warn (''delivery channel for queue '' @ queueName clnt @ '' closed, resubscribing'') []], Stop True)"
| "processEvents queue loopCtx clnt (EvDelivery d env # es) =
     (let (effs, p) = handleDelivery queue env loopCtx clnt (callback clnt) d
      in case p of
           Some pan \<Rightarrow> ([Delivered effs], Crash pan)
         | None \<Rightarrow> (let (evs, st) = processEvents queue loopCtx clnt es in (Delivered effs # evs, st)))"

definition processDeliveries ::
  "'c queueStore \<Rightarrow> 'c \<Rightarrow> 'c client \<Rightarrow> chan_id option \<Rightarrow> delivery_event list \<Rightarrow> 'c loop_event list \<times> stop" where
  "processDeliveries queue loopCtx clnt chan es =
     (let (evs, st) = processEvents queue loopCtx clnt es
      in ((case chan of Some c \<Rightarrow> [WatchClose c] | None \<Rightarrow> []) @ evs, st))"

text \<open>What one turn of the loop observes.\<close>

record iteration =
  it_canceled :: bool \<comment> \<open>\<open>consumerCanceled\<close>\<close>
  it_ready :: "ready_obs list" \<comment> \<open>\<open>waitUntilClientReady\<close>\<close>
  it_isReady :: bool \<comment> \<open>\<open>isReady\<close> in \<open>consume\<close>\<close>
  it_ch :: "chan_id option" \<comment> \<open>\<open>clnt.ch\<close> in \<open>consume\<close>\<close>
  it_answer :: "go_error option" \<comment> \<open>the library's \<open>Consume\<close>\<close>
  it_wake :: wake \<comment> \<open>\<open>sleepConsumerBackoff\<close>\<close>
  it_watch :: "chan_id option" \<comment> \<open>\<open>clnt.ch\<close> in \<open>processDeliveries\<close>\<close>
  it_events :: "delivery_event list"

datatype loop_exit = ExitCanceled | ExitNotReady | ExitBackoff | ExitDeliveries | ExitCrash panic | Running

text \<open>
  \<open>runConsumerLoop\<close> from a given \<open>backoffDelay\<close>. The delay that
  \<open>waitUntilClientReady\<close> returns replaces the one kept so far, as in the code.
\<close>

fun consumerLoop ::
  "'c queueStore \<Rightarrow> 'c \<Rightarrow> 'c client \<Rightarrow> duration \<Rightarrow> iteration list \<Rightarrow> 'c loop_event list \<times> loop_exit" where
  "consumerLoop queue loopCtx clnt backoff [] = ([], Running)"
| "consumerLoop queue loopCtx clnt backoff (it # its) =
     (if it_canceled it then ([CloseClient], ExitCanceled)
      else
        (let (sleeps, r) = waitUntilClientReady (it_ready it) backoff; waits = map WaitSleep sleeps
         in case r of
              None \<Rightarrow> (waits, Running)
            | Some delay \<Rightarrow>
                if delay = 0 then (waits, ExitNotReady)
                else (case consume (it_isReady it) (it_ch it) (queueName clnt) (it_answer it) of
                    Inl p \<Rightarrow> (waits, ExitCrash p)
                  | Inr (Some err) \<Rightarrow>
                      (let failed = waits @ [Subscribe (Some err),
                             LoopLog Warn (''error consuming queue '' @ queueName clnt @ '', retrying'') [LogErr err],
                             RetrySleep delay];
                           delay' = sleepConsumerBackoff (it_wake it) delay
                       in if delay' = 0 then (failed, ExitBackoff)
                          else (let (evs, ex) = consumerLoop queue loopCtx clnt delay' its
                                in (failed @ evs, ex)))
                  | Inr None \<Rightarrow>
                      (let (evs, st) = processDeliveries queue loopCtx clnt (it_watch it) (it_events it);
                           done_evs = waits @ Subscribe None # evs
                       in case st of
                            Waiting \<Rightarrow> (done_evs, Running)
                          | Crash p \<Rightarrow> (done_evs, ExitCrash p)
                          | Stop False \<Rightarrow> (done_evs, ExitDeliveries)
                          | Stop True \<Rightarrow>
                              (let (evs', ex) = consumerLoop queue loopCtx clnt delay its
                               in (done_evs @ evs', ex))))))"

definition runConsumerLoop ::
  "'c queueStore \<Rightarrow> 'c \<Rightarrow> 'c client \<Rightarrow> iteration list \<Rightarrow> 'c loop_event list \<times> loop_exit" where
  "runConsumerLoop queue loopCtx clnt its = consumerLoop queue loopCtx clnt initialConsumerDelay its"

section \<open>Properties of the loop\<close>

lemma processEvents_no_sleep:
  "WaitSleep x \<notin> set (fst (processEvents queue loopCtx clnt es)) \<and>
   RetrySleep x \<notin> set (fst (processEvents queue loopCtx clnt es))"
proof (induction es)
  case (Cons e es)
  then show ?case
    by (cases e) (auto simp: logChannelClosed_def split: option.splits prod.splits)
qed simp

lemma processEvents_close:
  "CloseClient \<in> set (fst (processEvents queue loopCtx clnt es)) \<longleftrightarrow>
   snd (processEvents queue loopCtx clnt es) = Stop False"
proof (induction es)
  case (Cons e es)
  then show ?case
    by (cases e) (auto simp: logChannelClosed_def split: option.splits prod.splits)
qed simp

lemma processDeliveries_events:
  "RetrySleep x \<notin> set (fst (processDeliveries queue loopCtx clnt chan es))"
  "WaitSleep x \<notin> set (fst (processDeliveries queue loopCtx clnt chan es))"
  "CloseClient \<in> set (fst (processDeliveries queue loopCtx clnt chan es)) \<longleftrightarrow>
   snd (processDeliveries queue loopCtx clnt chan es) = Stop False"
  using processEvents_no_sleep [of x queue loopCtx clnt es] processEvents_close [of queue loopCtx clnt es]
  by (auto simp: processDeliveries_def split: prod.splits option.splits)

lemma consumerLoop_retry_sleep:
  "consumerLoop queue loopCtx clnt b its = (res, ex) \<Longrightarrow> RetrySleep x \<in> set res \<Longrightarrow>
     x = initialConsumerDelay"
proof (induction its arbitrary: b res ex)
  case (Cons it its)
  obtain sl r where w: "waitUntilClientReady (it_ready it) b = (sl, r)" by fastforce
  have r: "d = 0 \<or> d = initialConsumerDelay" if "r = Some d" for d
    using waitUntilClientReady_result [of "it_ready it" b d] w that by simp
  obtain evs st where p: "processDeliveries queue loopCtx clnt (it_watch it) (it_events it) = (evs, st)" by fastforce
  have e: "RetrySleep x \<notin> set evs"
    using processDeliveries_events(1) [of x queue loopCtx clnt "it_watch it" "it_events it"] p by simp
  show ?case
    using Cons.prems w e p r
    by (auto simp: Let_def dest: Cons.IH
        split: if_splits option.splits sum.splits stop.splits bool.splits prod.splits)
qed simp

lemma consumerLoop_closes:
  "consumerLoop queue loopCtx clnt b its = (res, ex) \<Longrightarrow>
     CloseClient \<in> set res \<longleftrightarrow> ex \<in> {ExitCanceled, ExitDeliveries}"
proof (induction its arbitrary: b res ex)
  case (Cons it its)
  obtain sl r where w: "waitUntilClientReady (it_ready it) b = (sl, r)" by fastforce
  obtain evs st where p: "processDeliveries queue loopCtx clnt (it_watch it) (it_events it) = (evs, st)" by fastforce
  have e: "CloseClient \<in> set evs \<longleftrightarrow> st = Stop False"
    using processDeliveries_events(3) [of queue loopCtx clnt "it_watch it" "it_events it"] p by simp
  have c: "CloseClient \<notin> WaitSleep ` set sl" by auto
  show ?case
    using Cons.prems w e p c
    by (auto simp: Let_def dest: Cons.IH
        split: if_splits option.splits sum.splits stop.splits bool.splits prod.splits)
qed auto

lemma waits_bounded:
  assumes "fst (waitUntilClientReady os (backoff_at k)) = sl" "x \<in> set sl"
  shows "second \<le> x \<and> x \<le> maxConsumerBackoff"
proof -
  have "sl = map backoff_at [k..<k + length sl]"
    using waitUntilClientReady_sleeps [of "backoff_at k" k os] assms(1) by simp
  then have "x \<in> set (map backoff_at [k..<k + length sl])" using assms(2) by simp
  then show ?thesis using backoff_at_bounds by auto
qed

lemma sleepConsumerBackoff_at:
  "sleepConsumerBackoff w initialConsumerDelay \<in> {0, backoff_at 1}"
  using backoff_at_Suc [of 0] by (auto simp: sleepConsumerBackoff_def backoff_at_0 split: wake.splits)

lemma consumerLoop_wait_sleep:
  "consumerLoop queue loopCtx clnt (backoff_at k) its = (res, ex) \<Longrightarrow> WaitSleep x \<in> set res \<Longrightarrow>
     second \<le> x \<and> x \<le> maxConsumerBackoff"
proof (induction its arbitrary: k res ex)
  case (Cons it its)
  obtain sl r where w: "waitUntilClientReady (it_ready it) (backoff_at k) = (sl, r)" by fastforce
  have sl: "second \<le> x \<and> x \<le> maxConsumerBackoff" if "x \<in> set sl"
    using waits_bounded [OF _ that] w by (metis fst_conv)
  have r: "d = 0 \<or> d = backoff_at 0" if "r = Some d" for d
    using waitUntilClientReady_result [of "it_ready it" "backoff_at k" d] w that by (simp add: backoff_at_0)
  have s: "sleepConsumerBackoff (it_wake it) (backoff_at 0) \<in> {0, backoff_at 1}"
    using sleepConsumerBackoff_at by (simp add: backoff_at_0)
  obtain evs st where p: "processDeliveries queue loopCtx clnt (it_watch it) (it_events it) = (evs, st)" by fastforce
  have e: "WaitSleep x \<notin> set evs"
    using processDeliveries_events(2) [of x queue loopCtx clnt "it_watch it" "it_events it"] p by simp
  show ?case
    using Cons.prems w e p r s sl
    by (auto simp: Let_def dest: Cons.IH [of 0] Cons.IH [of 1, simplified]
        split: if_splits option.splits sum.splits stop.splits bool.splits prod.splits)
qed simp

text \<open>
  The wait for a ready client backs off as intended: from the initial delay its k-th sleep
  is \<open>min (2 ^ k) 30\<close> seconds, without overflow, and it ends with 0 (stop) or with the
  initial delay.
\<close>

theorem waitUntilClientReady_backoff:
  "fst (waitUntilClientReady os initialConsumerDelay) =
     map (\<lambda>k. min (2 ^ k * second) (30 * second))
       [0..<length (fst (waitUntilClientReady os initialConsumerDelay))] \<and>
   (snd (waitUntilClientReady os initialConsumerDelay) = Some r \<longrightarrow> r = 0 \<or> r = initialConsumerDelay)"
proof -
  have "backoff_at = (\<lambda>k. min (2 ^ k * second) (30 * second))"
    by (simp add: backoff_at_def maxConsumerBackoff_def fun_eq_iff)
  then show ?thesis
    using waitUntilClientReady_sleeps [of initialConsumerDelay 0 os]
      waitUntilClientReady_result [of os initialConsumerDelay r]
    by (simp add: backoff_at_0)
qed

theorem waitUntilClientReady_backoff_witness:
  "waitUntilClientReady (replicate 6 (NotReady WakeTimer) @ [IsReady]) initialConsumerDelay =
     (map (\<lambda>k. k * second) [1, 2, 4, 8, 16, 30], Some initialConsumerDelay)"
proof -
  let ?os = "replicate 6 (NotReady WakeTimer) @ [IsReady]"
  have "snd (waitUntilClientReady ?os initialConsumerDelay) = Some initialConsumerDelay"
    "length (fst (waitUntilClientReady ?os initialConsumerDelay)) = 6"
    by (simp_all add: numeral_eq_Suc split_beta)
  then show ?thesis
    using waitUntilClientReady_backoff [of ?os initialConsumerDelay]
    by (intro prod_eqI) (simp_all add: upt_rec min_def second_def)
qed

text \<open>
  C28. Every sleep of a consumer loop, over its whole life and whatever happens, lasts between
  one and thirty seconds: it neither spins nor goes away for good.
\<close>

theorem runConsumerLoop_sleeps_bounded:
  "WaitSleep x \<in> set (fst (runConsumerLoop queue loopCtx clnt its)) \<or>
   RetrySleep x \<in> set (fst (runConsumerLoop queue loopCtx clnt its)) \<Longrightarrow>
     second \<le> x \<and> x \<le> 30 * second"
  using consumerLoop_wait_sleep [OF surjective_pairing, of x queue loopCtx clnt 0 its]
    consumerLoop_retry_sleep [OF surjective_pairing, of x queue loopCtx clnt initialConsumerDelay its]
  by (auto simp: runConsumerLoop_def backoff_at_0 maxConsumerBackoff_def initialConsumerDelay_def second_def)

definition failing_iteration :: iteration where
  "failing_iteration =
     \<lparr>it_canceled = False, it_ready = [IsReady], it_isReady = True, it_ch = Some 1,
      it_answer = Some (Opaque ''channel/connection is not open''), it_wake = WakeTimer,
      it_watch = Some 1, it_events = []\<rparr>"

lemma failing_run:
  "filter (\<lambda>e. \<exists>x. e = RetrySleep x)
     (fst (runConsumerLoop sample_store 0 sample_client [failing_iteration, failing_iteration, failing_iteration])) =
   [RetrySleep second, RetrySleep second, RetrySleep second]"
  by (simp add: runConsumerLoop_def failing_iteration_def consume_def sleepConsumerBackoff_def
      nextConsumerBackoff_def int64_def backoff_consts)

lemma failing_sleeps:
  "RetrySleep second \<in> set (fst (runConsumerLoop sample_store 0 sample_client
     [failing_iteration, failing_iteration, failing_iteration]))"
proof -
  have "RetrySleep second \<in> set (filter (\<lambda>e. \<exists>x. e = RetrySleep x)
     (fst (runConsumerLoop sample_store 0 sample_client [failing_iteration, failing_iteration, failing_iteration])))"
    unfolding failing_run by simp
  then show ?thesis by simp
qed

theorem runConsumerLoop_sleeps_bounded_witness:
  "RetrySleep second \<in> set (fst (runConsumerLoop sample_store 0 sample_client
     [failing_iteration, failing_iteration, failing_iteration])) \<and> second \<le> second \<and> second \<le> 30 * second"
proof -
  have "RetrySleep second \<in> set (fst (runConsumerLoop sample_store 0 sample_client
     [failing_iteration, failing_iteration, failing_iteration]))"
    using failing_sleeps .
  then show ?thesis
    using runConsumerLoop_sleeps_bounded [of second sample_store 0 sample_client
        "[failing_iteration, failing_iteration, failing_iteration]"] by simp
qed

text \<open>
  The backoff after a failed \<open>consume\<close> never grows: \<open>waitUntilClientReady\<close> resets
  the delay before each attempt, so however often the broker refuses the subscription the loop
  retries after exactly the initial second.
\<close>

theorem consume_backoff_never_grows:
  "RetrySleep x \<in> set (fst (runConsumerLoop queue loopCtx clnt its)) \<Longrightarrow> x = second"
  using consumerLoop_retry_sleep [OF surjective_pairing, of x queue loopCtx clnt initialConsumerDelay its]
  by (simp add: runConsumerLoop_def initialConsumerDelay_def)

theorem consume_backoff_never_grows_witness:
  "\<exists>x. RetrySleep x \<in> set (fst (runConsumerLoop sample_store 0 sample_client
     [failing_iteration, failing_iteration, failing_iteration])) \<and> x = second"
proof -
  have "RetrySleep second \<in> set (fst (runConsumerLoop sample_store 0 sample_client
     [failing_iteration, failing_iteration, failing_iteration]))"
    using failing_sleeps .
  then show ?thesis using consume_backoff_never_grows by blast
qed

text \<open>
  The loop closes its client exactly when it stops at its top or between deliveries. When
  the consumer's context ends while the loop waits for a ready client or sleeps after a failed
  \<open>consume\<close>, the loop returns and leaves the client, its connection and its reconnect
  goroutine to \<open>Shutdown\<close>.
\<close>

theorem runConsumerLoop_closes_client:
  "CloseClient \<in> set (fst (runConsumerLoop queue loopCtx clnt its)) \<longleftrightarrow>
   snd (runConsumerLoop queue loopCtx clnt its) \<in> {ExitCanceled, ExitDeliveries}"
  unfolding runConsumerLoop_def by (rule consumerLoop_closes [OF surjective_pairing])

end
