(* ===== verification/ConsumerMachine.thy ===== *)
theory ConsumerMachine
  imports MachineInv ConsumerLoop Store
begin

text \<open>
  A consumer client with all its goroutines: the reconnect loop and \<open>close\<close> of Machine, the
  connection and the channels they install, and the consumer loop of consumer_loop.go, which
  reads \<open>isReady\<close>, \<open>ch\<close> and \<open>done\<close> while they change. ConsumerLoop says what the loop does
  with what it observes; here is what it can observe.

  Of the AMQP library this uses, beyond Machine: a channel is closed with its connection, a
  closed channel rejects \<open>Consume\<close>, closes the channel of deliveries (dropping what it has
  buffered) and the channels registered with \<open>NotifyClose\<close>, also those registered later.
\<close>

section \<open>State\<close>

text \<open>
  Where the consumer loop is, with its \<open>backoffDelay\<close>. After \<open>consume\<close> succeeded the channel
  the deliveries come from is kept, and after \<open>NotifyClose\<close> the one it was called on.
\<close>

datatype kpc =
    KNew \<comment> \<open>not started by \<open>InitConsumer\<close>\<close>
  | KTop duration \<comment> \<open>top of the loop of \<open>runConsumerLoop\<close>\<close>
  | KReadyCheck duration \<comment> \<open>the condition of \<open>waitUntilClientReady\<close>\<close>
  | KReadyWait duration \<comment> \<open>its \<open>select\<close>\<close>
  | KConsume duration \<comment> \<open>\<open>consume\<close>, before it reads \<open>isReady\<close>\<close>
  | KCall duration \<comment> \<open>\<open>consume\<close>, before \<open>clnt.ch.Consume\<close>\<close>
  | KBackoff duration
  | KNilCheck duration chan_id \<comment> \<open>\<open>processDeliveries\<close>, before \<open>clnt.ch != nil\<close>\<close>
  | KNotify duration chan_id \<comment> \<open>before \<open>clnt.ch.NotifyClose\<close>\<close>
  | KSelect duration chan_id "chan_id option"
  | KGot duration chan_id "chan_id option" amqp_delivery \<comment> \<open>received, not yet counted\<close>
  | KHandling duration chan_id "chan_id option" amqp_delivery
  | KClosing \<comment> \<open>in \<open>clnt.close\<close>\<close>
  | KEnded
  | KCrashed panic

text \<open>
  \<open>cw_canceled\<close>: the context given to \<open>AddConsumer\<close> is done. \<open>cw_of\<close>: the connection of a
  channel. \<open>cw_leaked\<close> is a history variable: \<open>amqp.Dial\<close> succeeded after \<open>close\<close> had
  returned.
\<close>

record 'c consumer_world =
  cw :: "'c world"
  cw_loop :: kpc
  cw_canceled :: bool
  cw_of :: "chan_id \<Rightarrow> conn_id"
  cw_leaked :: bool

definition consumer_world_of :: "'c world \<Rightarrow> 'c consumer_world" where
  "consumer_world_of w = \<lparr>cw = w, cw_loop = KNew, cw_canceled = False, cw_of = (\<lambda>_. 0), cw_leaked = False\<rparr>"

text \<open>
  A client as \<open>addConsumerClient\<close> makes it, its reconnect loop started. Nobody publishes through
  it, so \<open>calls\<close> is not read.
\<close>

definition consumer_start ::
  "'c system \<Rightarrow> ctx_id \<Rightarrow> queue_item \<Rightarrow> queue_name \<Rightarrow> 'c consumer_handler option \<Rightarrow>
     (nat \<Rightarrow> 'c \<times> publish_message) \<Rightarrow> 'c consumer_world" where
  "consumer_start s ctx p name cb calls =
     consumer_world_of (at_r (machine_start (consumer_client s ctx p name cb) calls) RTop)"

fun closed_pc :: "cpc \<Rightarrow> bool" where
  "closed_pc (CClosed _) = True"
| "closed_pc _ = False"

definition cw_closed :: "'c consumer_world \<Rightarrow> bool" where
  "cw_closed s \<longleftrightarrow> closed_pc (w_cpc (cw s))"

definition alive :: "'c consumer_world \<Rightarrow> chan_id \<Rightarrow> bool" where
  "alive s n \<longleftrightarrow> w_chanOpen (cw s) n \<and> w_connOpen (cw s) (cw_of s n)"

abbreviation cw_clnt :: "'c consumer_world \<Rightarrow> 'c client" where
  "cw_clnt s \<equiv> w_clnt (cw s)"

abbreviation at_k :: "'c consumer_world \<Rightarrow> kpc \<Rightarrow> 'c consumer_world" where
  "at_k s pc \<equiv> s\<lparr>cw_loop := pc\<rparr>"

section \<open>The consumer loop\<close>

text \<open>Which branches of the two waits are open; a timer may always have fired.\<close>

definition wake_open :: "'c consumer_world \<Rightarrow> wake \<Rightarrow> bool" where
  "wake_open s wk =
     (case wk of WakeDone \<Rightarrow> cw_canceled s | WakeClientDone \<Rightarrow> done_closed (cw_clnt s) | WakeTimer \<Rightarrow> True)"

datatype k_label =
    KStart | KCanceled | KGoOn | KSeeReady | KSeeNot | KWoken wake | KConsumeRefused | KConsumePass
  | KConsumed "go_error option" | KRetry wake | KNil | KNotNil | KNotified
  | KDone | KChanClosed "go_error option" | KDelivered amqp_delivery | KDeliveriesClosed
  | KAdd | KHandled delivery_env | KClosed

inductive loop_step ::
  "'c queueStore \<Rightarrow> 'c \<Rightarrow> 'c consumer_world \<Rightarrow> k_label \<Rightarrow> 'c consumer_world \<Rightarrow> bool" for queue loopCtx where
  k_start:
  "cw_loop s = KNew \<Longrightarrow> loop_step queue loopCtx s KStart (at_k s (KTop initialConsumerDelay))"
| k_canceled:
  "cw_loop s = KTop d \<Longrightarrow> cw_canceled s \<Longrightarrow> loop_step queue loopCtx s KCanceled (at_k s KClosing)"
| k_go_on:
  "cw_loop s = KTop d \<Longrightarrow> \<not> cw_canceled s \<Longrightarrow> loop_step queue loopCtx s KGoOn (at_k s (KReadyCheck d))"
| k_see_ready:
  "cw_loop s = KReadyCheck d \<Longrightarrow> isReady (cw_clnt s) \<Longrightarrow>
     loop_step queue loopCtx s KSeeReady (at_k s (KConsume initialConsumerDelay))"
| k_see_not:
  "cw_loop s = KReadyCheck d \<Longrightarrow> \<not> isReady (cw_clnt s) \<Longrightarrow>
     loop_step queue loopCtx s KSeeNot (at_k s (KReadyWait d))"
| k_woken:
  "cw_loop s = KReadyWait d \<Longrightarrow> wake_open s wk \<Longrightarrow>
     loop_step queue loopCtx s (KWoken wk)
       (at_k s (if wk = WakeTimer then KReadyCheck (nextConsumerBackoff d) else KEnded))"
| k_consume_refused:
  "cw_loop s = KConsume d \<Longrightarrow> \<not> isReady (cw_clnt s) \<Longrightarrow>
     loop_step queue loopCtx s KConsumeRefused (at_k s (KBackoff d))"
| k_consume_pass:
  "cw_loop s = KConsume d \<Longrightarrow> isReady (cw_clnt s) \<Longrightarrow>
     loop_step queue loopCtx s KConsumePass (at_k s (KCall d))"
| k_consume_nil:
  "cw_loop s = KCall d \<Longrightarrow> consume True (ch (cw_clnt s)) (queueName (cw_clnt s)) answer = Inl p \<Longrightarrow>
     loop_step queue loopCtx s (KConsumed answer) (at_k s (KCrashed p))"
| k_consume_fail:
  "cw_loop s = KCall d \<Longrightarrow> consume True (ch (cw_clnt s)) (queueName (cw_clnt s)) answer = Inr (Some err) \<Longrightarrow>
     loop_step queue loopCtx s (KConsumed answer) (at_k s (KBackoff d))"
| k_consume_ok:
  "cw_loop s = KCall d \<Longrightarrow> consume True (ch (cw_clnt s)) (queueName (cw_clnt s)) answer = Inr None \<Longrightarrow>
     ch (cw_clnt s) = Some n \<Longrightarrow> alive s n \<Longrightarrow>
     loop_step queue loopCtx s (KConsumed answer) (at_k s (KNilCheck d n))"
| k_retry:
  "cw_loop s = KBackoff d \<Longrightarrow> wake_open s wk \<Longrightarrow> r = sleepConsumerBackoff wk d \<Longrightarrow>
     loop_step queue loopCtx s (KRetry wk) (at_k s (if r = 0 then KEnded else KTop r))"
| k_nil:
  "cw_loop s = KNilCheck d n \<Longrightarrow> ch (cw_clnt s) = None \<Longrightarrow>
     loop_step queue loopCtx s KNil (at_k s (KSelect d n None))"
| k_not_nil:
  "cw_loop s = KNilCheck d n \<Longrightarrow> ch (cw_clnt s) \<noteq> None \<Longrightarrow>
     loop_step queue loopCtx s KNotNil (at_k s (KNotify d n))"
| k_notified:
  "cw_loop s = KNotify d n \<Longrightarrow>
     loop_step queue loopCtx s KNotified
       (at_k s (case ch (cw_clnt s) of None \<Rightarrow> KCrashed NilChannel | Some m \<Rightarrow> KSelect d n (Some m)))"
| k_done:
  "cw_loop s = KSelect d n m \<Longrightarrow> cw_canceled s \<Longrightarrow> loop_step queue loopCtx s KDone (at_k s KClosing)"
| k_chan_closed:
  "cw_loop s = KSelect d n (Some m) \<Longrightarrow> \<not> alive s m \<Longrightarrow>
     loop_step queue loopCtx s (KChanClosed amqErr) (at_k s (KTop d))"
| k_delivered:
  "cw_loop s = KSelect d n m \<Longrightarrow> alive s n \<Longrightarrow>
     loop_step queue loopCtx s (KDelivered dl) (at_k s (KGot d n m dl))"
| k_deliveries_closed:
  "cw_loop s = KSelect d n m \<Longrightarrow> \<not> alive s n \<Longrightarrow>
     loop_step queue loopCtx s KDeliveriesClosed (at_k s (KTop d))"
| k_add:
  "cw_loop s = KGot d n m dl \<Longrightarrow> loop_step queue loopCtx s KAdd (at_k s (KHandling d n m dl))"
| k_handled:
  "cw_loop s = KHandling d n m dl \<Longrightarrow>
     handleDelivery queue env loopCtx (cw_clnt s) (callback (cw_clnt s)) dl = (effs, p) \<Longrightarrow>
     loop_step queue loopCtx s (KHandled env)
       (at_k s (case p of None \<Rightarrow> KSelect d n m | Some pan \<Rightarrow> KCrashed pan))"
| k_closed:
  "cw_loop s = KClosing \<Longrightarrow> cw_closed s \<Longrightarrow> loop_step queue loopCtx s KClosed (at_k s KEnded)"

section \<open>All together\<close>

text \<open>
  \<open>close\<close> runs once, whoever calls it first, and every other caller waits for it
  (\<open>sync.Once\<close>): its steps are those of Machine, and the loop in \<open>KClosing\<close> goes on when it
  has returned.
\<close>

datatype c_world_label = KR r_label | KC c_label | KConnDrop conn_id | KChanDrop chan_id | KCancel | KL k_label

text \<open>The connection a new channel belongs to.\<close>

definition note_channel :: "'c world \<Rightarrow> r_label \<Rightarrow> (chan_id \<Rightarrow> conn_id) \<Rightarrow> chan_id \<Rightarrow> conn_id" where
  "note_channel w l f = (case (l, w_rpc w) of (ROpenOk, ROpen c) \<Rightarrow> f(w_next w := c) | _ \<Rightarrow> f)"

inductive consumer_step ::
  "'c queueStore \<Rightarrow> 'c \<Rightarrow> 'c consumer_world \<Rightarrow> c_world_label \<Rightarrow> 'c consumer_world \<Rightarrow> bool" for queue loopCtx where
  kw_reconnect:
  "reconnect_step (cw s) l v \<Longrightarrow>
     consumer_step queue loopCtx s (KR l)
       (s\<lparr>cw := v, cw_of := note_channel (cw s) l (cw_of s),
          cw_leaked := (cw_leaked s \<or> l = RDialOk \<and> cw_closed s)\<rparr>)"
| kw_close:
  "close_step (cw s) l v \<Longrightarrow> consumer_step queue loopCtx s (KC l) (s\<lparr>cw := v\<rparr>)"
| kw_conn_drop:
  "env_step (cw s) (EConnDrop c) v \<Longrightarrow> consumer_step queue loopCtx s (KConnDrop c) (s\<lparr>cw := v\<rparr>)"
| kw_chan_drop:
  "env_step (cw s) (EChanDrop c) v \<Longrightarrow> consumer_step queue loopCtx s (KChanDrop c) (s\<lparr>cw := v\<rparr>)"
| kw_cancel:
  "consumerDone (cw_clnt s) \<noteq> None \<Longrightarrow> consumer_step queue loopCtx s KCancel (s\<lparr>cw_canceled := True\<rparr>)"
| kw_loop:
  "loop_step queue loopCtx s l t \<Longrightarrow> consumer_step queue loopCtx s (KL l) t"

inductive_cases loop_stepE: "loop_step queue loopCtx s l t"
inductive_cases consumer_stepE: "consumer_step queue loopCtx s l t"

inductive_simps loop_step_simps:
  "loop_step queue loopCtx s KStart t" "loop_step queue loopCtx s KCanceled t" "loop_step queue loopCtx s KGoOn t"
  "loop_step queue loopCtx s KSeeReady t" "loop_step queue loopCtx s KSeeNot t" "loop_step queue loopCtx s (KWoken wk) t"
  "loop_step queue loopCtx s KConsumeRefused t" "loop_step queue loopCtx s KConsumePass t"
  "loop_step queue loopCtx s (KConsumed answer) t" "loop_step queue loopCtx s (KRetry wk) t"
  "loop_step queue loopCtx s KNil t" "loop_step queue loopCtx s KNotNil t" "loop_step queue loopCtx s KNotified t"
  "loop_step queue loopCtx s KDone t" "loop_step queue loopCtx s (KChanClosed e) t"
  "loop_step queue loopCtx s (KDelivered dl) t" "loop_step queue loopCtx s KDeliveriesClosed t"
  "loop_step queue loopCtx s KAdd t" "loop_step queue loopCtx s (KHandled env) t" "loop_step queue loopCtx s KClosed t"

inductive_simps consumer_step_simps:
  "consumer_step queue loopCtx s (KR rl) t" "consumer_step queue loopCtx s (KC cl) t"
  "consumer_step queue loopCtx s (KConnDrop c) t" "consumer_step queue loopCtx s (KChanDrop c) t"
  "consumer_step queue loopCtx s KCancel t" "consumer_step queue loopCtx s (KL kl) t"

lemmas consumer_simps = consumer_step_simps loop_step_simps reconnect_step_simps close_step_simps env_step_simps

section \<open>The loop and the rest of the world\<close>

lemma loop_frame:
  "loop_step queue loopCtx s l t \<Longrightarrow>
     cw t = cw s \<and> cw_canceled t = cw_canceled s \<and> cw_of t = cw_of s \<and> cw_leaked t = cw_leaked s"
  by (erule loop_stepE) simp_all

lemma loop_frame_alive: "loop_step queue loopCtx s l t \<Longrightarrow> alive t = alive s \<and> cw_closed t = cw_closed s"
  by (drule loop_frame) (simp add: alive_def cw_closed_def fun_eq_iff)

section \<open>Connections and channels\<close>

text \<open>
  What the reconnect loop and \<open>close\<close> keep of the connections (\<open>f\<close> gives a channel's): only the
  one in \<open>conn\<close> is open, none while the loop dials; only a channel in \<open>ch\<close> is alive, none while
  the loop opens one.
\<close>

definition lives :: "'c world \<Rightarrow> (chan_id \<Rightarrow> conn_id) \<Rightarrow> chan_id \<Rightarrow> bool" where
  "lives w f n \<longleftrightarrow> w_chanOpen w n \<and> w_connOpen w (f n)"

fun dialing :: "rpc \<Rightarrow> bool" where
  "dialing RTop = True"
| "dialing RDial = True"
| "dialing RDialWait = True"
| "dialing _ = False"

fun opening_ch :: "rpc \<Rightarrow> bool" where
  "opening_ch (RInitTop _) = True"
| "opening_ch (ROpen _) = True"
| "opening_ch (RInitFailed _) = True"
| "opening_ch _ = False"

fun assigned :: "rpc \<Rightarrow> chan_id option" where
  "assigned (RAssign _ n) = Some n"
| "assigned (RDeclare _ n) = Some n"
| "assigned _ = None"

definition conns_ok :: "'c world \<Rightarrow> (chan_id \<Rightarrow> conn_id) \<Rightarrow> bool" where
  "conns_ok w f \<longleftrightarrow>
     (\<forall>x. w_connOpen w x \<longrightarrow> conn (w_clnt w) = Some x \<and> x < w_next w) \<and>
     (\<forall>n. w_chanOpen w n \<longrightarrow> n < w_next w \<and> f n < w_next w) \<and>
     (\<forall>x. on_conn (w_rpc w) = Some x \<longrightarrow> conn (w_clnt w) = Some x \<and> notifyConnClose (w_clnt w) = Some x) \<and>
     (dialing (w_rpc w) \<longrightarrow> (\<forall>x. \<not> w_connOpen w x)) \<and>
     (\<forall>n. lives w f n \<longrightarrow> ch (w_clnt w) = Some n \<and> \<not> opening_ch (w_rpc w)) \<and>
     (\<forall>n. assigned (w_rpc w) = Some n \<longrightarrow> ch (w_clnt w) = Some n) \<and>
     (channel_up (w_rpc w) \<longrightarrow> ch (w_clnt w) \<noteq> None \<and> notifyChanClose (w_clnt w) = ch (w_clnt w))"

lemma conns_ok_reconnect:
  "reconnect_step w l v \<Longrightarrow> conns_ok w f \<Longrightarrow> conns_ok v (note_channel w l f)"
  by (erule reconnect_stepE)
    (simp_all add: conns_ok_def lives_def note_channel_def conn_closed_notified_def chan_closed_notified_def less_Suc_eq,
      (metis option.inject less_irrefl)+)

lemma conns_ok_close: "close_step w l v \<Longrightarrow> conns_ok w f \<Longrightarrow> conns_ok v f"
  by (erule close_stepE) (auto simp: conns_ok_def lives_def)

lemma conns_ok_drop:
  "env_step w (EConnDrop c) v \<Longrightarrow> conns_ok w f \<Longrightarrow> conns_ok v f"
  "env_step w (EChanDrop c) v \<Longrightarrow> conns_ok w f \<Longrightarrow> conns_ok v f"
  by (auto simp: env_step_simps conns_ok_def lives_def)

fun past_done :: "cpc \<Rightarrow> bool" where
  "past_done CIdle = False"
| "past_done CStore0 = False"
| "past_done CCloseDone = False"
| "past_done _ = True"

definition consumer_inv :: "'c consumer_world \<Rightarrow> bool" where
  "consumer_inv s \<longleftrightarrow>
     conns_ok (cw s) (cw_of s) \<and>
     (past_done (w_cpc (cw s)) \<longrightarrow> done_closed (cw_clnt s)) \<and>
     (cw_closed s \<and> \<not> cw_leaked s \<longrightarrow> (\<forall>x. \<not> w_connOpen (cw s) x))"

lemma closed_past_done: "closed_pc pc \<Longrightarrow> past_done pc"
  by (cases pc) simp_all

lemma consumer_inv_done: "consumer_inv s \<Longrightarrow> cw_closed s \<Longrightarrow> done_closed (cw_clnt s)"
  by (simp add: consumer_inv_def cw_closed_def closed_past_done)

lemma reconnect_keeps_close: "reconnect_step w l v \<Longrightarrow> w_cpc v = w_cpc w \<and> (done_closed (w_clnt w) \<longrightarrow> done_closed (w_clnt v))"
  by (erule reconnect_stepE) simp_all

lemma reconnect_opens: "reconnect_step w l v \<Longrightarrow> w_connOpen v x \<Longrightarrow> l = RDialOk \<or> w_connOpen w x"
  by (erule reconnect_stepE) (simp_all split: if_splits)

lemma close_ends:
  "close_step w l v \<Longrightarrow> (past_done (w_cpc w) \<longrightarrow> done_closed (w_clnt w)) \<Longrightarrow>
     past_done (w_cpc v) \<longrightarrow> done_closed (w_clnt v)"
  by (erule close_stepE) simp_all

lemma close_closes:
  "close_step w l v \<Longrightarrow> conns_ok w f \<Longrightarrow> closed_pc (w_cpc v) \<Longrightarrow> \<not> w_connOpen v x"
  by (erule close_stepE) (auto simp: conns_ok_def)

lemma consumer_inv_step:
  assumes inv: "consumer_inv s" and step: "consumer_step queue loopCtx s l t"
  shows "consumer_inv t"
  using step
proof (cases rule: consumer_step.cases)
  case (kw_reconnect l v)
  have "\<not> w_connOpen v x" if "cw_closed s" "\<not> cw_leaked s" "l \<noteq> RDialOk" for x
    using reconnect_opens [OF kw_reconnect(3), of x] that inv by (auto simp: consumer_inv_def)
  then show ?thesis
    using inv kw_reconnect conns_ok_reconnect [OF kw_reconnect(3)] reconnect_keeps_close [OF kw_reconnect(3)]
    by (auto simp: consumer_inv_def cw_closed_def)
next
  case (kw_close l v)
  have "\<not> w_connOpen v x" if "closed_pc (w_cpc v)" for x
    using close_closes [OF kw_close(3), of "cw_of s" x] that inv by (simp add: consumer_inv_def)
  then show ?thesis
    using inv kw_close conns_ok_close [OF kw_close(3)] close_ends [OF kw_close(3)]
    by (simp add: consumer_inv_def cw_closed_def)
next
  case (kw_conn_drop c v)
  then show ?thesis using inv conns_ok_drop(1) by (auto simp: consumer_inv_def cw_closed_def env_step_simps)
next
  case (kw_chan_drop c v)
  then show ?thesis using inv conns_ok_drop(2) by (auto simp: consumer_inv_def cw_closed_def env_step_simps)
next
  case kw_cancel
  then show ?thesis using inv by (simp add: consumer_inv_def cw_closed_def)
next
  case (kw_loop l)
  then show ?thesis using inv loop_frame [OF kw_loop(2)] by (simp add: consumer_inv_def cw_closed_def)
qed

lemmas consumer_start_unfold [start_defs] = consumer_start_def consumer_world_of_def consumer_client_def

lemma consumer_inv_start: "consumer_inv (consumer_start s ctx p name cb calls)"
  by (simp add: consumer_inv_def conns_ok_def lives_def cw_closed_def start_defs)

interpretation consumer: invariant_system "consumer_start s ctx p name cb calls" "consumer_step queue loopCtx" consumer_inv
  for s ctx p name cb calls queue loopCtx
  by unfold_locales (blast intro: consumer_inv_start consumer_inv_step)+

lemma inv_no_channel: "consumer_inv s \<Longrightarrow> cw_closed s \<Longrightarrow> \<not> cw_leaked s \<Longrightarrow> \<not> alive s n"
  by (simp add: consumer_inv_def alive_def)

section \<open>After \<open>close\<close>\<close>

lemma closed_stays:
  "consumer_step queue loopCtx s l t \<Longrightarrow> cw_closed s \<Longrightarrow> cw_closed t \<and> (cw_leaked s \<longrightarrow> cw_leaked t)"
proof (erule consumer_stepE)
  fix cl v
  assume "close_step (cw s) cl v" "cw_closed s"
  then show ?thesis by (cases rule: close_step.cases) (simp_all add: cw_closed_def)
qed (auto simp: cw_closed_def env_step_simps dest: reconnect_keeps_close loop_frame)

lemma leak_before: "consumer_step queue loopCtx s l t \<Longrightarrow> \<not> cw_leaked t \<Longrightarrow> \<not> cw_leaked s"
  by (erule consumer_stepE) (auto dest: loop_frame)

text \<open>How many steps the loop can still take before it ends, if no timer fires.\<close>

fun steps_left :: "kpc \<Rightarrow> nat" where
  "steps_left KNew = 6"
| "steps_left (KTop _) = 5"
| "steps_left (KReadyCheck _) = 4"
| "steps_left (KReadyWait _) = 1"
| "steps_left (KConsume _) = 3"
| "steps_left (KCall _) = 2"
| "steps_left (KBackoff _) = 1"
| "steps_left (KNilCheck _ _) = 8"
| "steps_left (KNotify _ _) = 7"
| "steps_left (KSelect _ _ _) = 6"
| "steps_left (KGot _ _ _ _) = 8"
| "steps_left (KHandling _ _ _ _) = 7"
| "steps_left KClosing = 1"
| "steps_left KEnded = 0"
| "steps_left (KCrashed _) = 0"

definition loop_label :: "c_world_label \<Rightarrow> bool" where
  "loop_label l \<longleftrightarrow> (\<exists>k. l = KL k)"

definition timer_label :: "c_world_label \<Rightarrow> bool" where
  "timer_label l \<longleftrightarrow> l = KL (KWoken WakeTimer) \<or> l = KL (KRetry WakeTimer)"

definition own_label :: "c_world_label \<Rightarrow> bool" where
  "own_label l \<longleftrightarrow> loop_label l \<and> \<not> timer_label l"

lemma steps_left_8: "steps_left pc \<le> 8"
  by (cases pc) simp_all

lemma loop_step_closed:
  assumes "loop_step queue loopCtx s l t" "\<And>n. \<not> alive s n"
  shows "steps_left (cw_loop t) + (if timer_label (KL l) then 0 else 1)
      \<le> steps_left (cw_loop s) + (if timer_label (KL l) then 4 else 0)"
    and "l \<noteq> KDelivered dl"
  using assms
  by (auto simp: timer_label_def sleepConsumerBackoff_def elim!: loop_stepE split: wake.splits option.splits if_splits)

lemma loop_can_step:
  assumes "\<And>n. \<not> alive s n" "done_closed (cw_clnt s)" "cw_closed s"
    and "cw_loop s \<noteq> KEnded" "\<And>p. cw_loop s \<noteq> KCrashed p"
  shows "\<exists>l t. loop_step queue loopCtx s l t \<and> \<not> timer_label (KL l)"
proof (cases "cw_loop s")
  case KNew
  then show ?thesis using k_start by (fastforce simp: timer_label_def)
next
  case (KTop d)
  then show ?thesis
    by (cases "cw_canceled s") (fastforce simp: timer_label_def intro: k_canceled k_go_on)+
next
  case (KReadyCheck d)
  then show ?thesis
    by (cases "isReady (cw_clnt s)") (fastforce simp: timer_label_def intro: k_see_ready k_see_not)+
next
  case (KReadyWait d)
  then have "loop_step queue loopCtx s (KWoken WakeClientDone) (at_k s KEnded)"
    using k_woken [of s d WakeClientDone queue loopCtx] assms(2) by (simp add: wake_open_def)
  then show ?thesis by (fastforce simp: timer_label_def)
next
  case (KConsume d)
  then show ?thesis
    by (cases "isReady (cw_clnt s)") (fastforce simp: timer_label_def intro: k_consume_refused k_consume_pass)+
next
  case (KCall d)
  let ?e = "Some (Sentinel ErrConnectToQueue)"
  show ?thesis
  proof (cases "ch (cw_clnt s)")
    case None
    then show ?thesis using KCall k_consume_nil [of s d ?e NilChannel]
      by (fastforce simp: timer_label_def consume_def)
  next
    case (Some n)
    then show ?thesis using KCall k_consume_fail [of s d ?e]
      by (fastforce simp: timer_label_def consume_def)
  qed
next
  case (KBackoff d)
  then have "loop_step queue loopCtx s (KRetry WakeClientDone) (at_k s KEnded)"
    using k_retry [of s d WakeClientDone 0 queue loopCtx] assms(2) by (simp add: wake_open_def sleepConsumerBackoff_def)
  then show ?thesis by (fastforce simp: timer_label_def)
next
  case (KNilCheck d n)
  then show ?thesis
    by (cases "ch (cw_clnt s)") (fastforce simp: timer_label_def intro: k_nil k_not_nil)+
next
  case (KNotify d n)
  then show ?thesis using k_notified by (fastforce simp: timer_label_def)
next
  case (KSelect d n m)
  then show ?thesis using k_deliveries_closed assms(1) by (fastforce simp: timer_label_def)
next
  case (KGot d n m dl)
  then show ?thesis using k_add by (fastforce simp: timer_label_def)
next
  case (KHandling d n m dl)
  obtain env effs p where "handleDelivery queue env loopCtx (cw_clnt s) (callback (cw_clnt s)) dl = (effs, p)"
    by (metis surj_pair)
  then show ?thesis using KHandling k_handled by (fastforce simp: timer_label_def)
next
  case KClosing
  then show ?thesis using k_closed assms(3) by (fastforce simp: timer_label_def)
qed (use assms(4,5) in simp_all)

lemma closed_run:
  assumes "consumer_inv s" "cw_closed s" "run (consumer_step queue loopCtx) s ls t" "\<not> cw_leaked t"
  shows "consumer_inv t \<and> cw_closed t \<and> \<not> cw_leaked s \<and>
    steps_left (cw_loop t) + length (filter own_label ls)
      \<le> steps_left (cw_loop s) + 4 * length (filter timer_label ls) \<and>
    (\<forall>dl. KL (KDelivered dl) \<notin> set ls)"
  using assms
proof (induction ls arbitrary: s)
  case (Cons l ls)
  then obtain u where u: "consumer_step queue loopCtx s l u" "run (consumer_step queue loopCtx) u ls t" by auto
  note IH = Cons.IH [OF consumer_inv_step [OF Cons.prems(1) u(1)] _ u(2) Cons.prems(4)]
  have c: "cw_closed u" using closed_stays [OF u(1) Cons.prems(2)] by simp
  have leak: "\<not> cw_leaked s" using leak_before [OF u(1)] IH [OF c] by blast
  have "steps_left (cw_loop u) + (if own_label l then 1 else 0)
        \<le> steps_left (cw_loop s) + (if timer_label l then 4 else 0) \<and>
      (\<forall>dl. l \<noteq> KL (KDelivered dl))"
    using u(1)
  proof (cases rule: consumer_step.cases)
    case (kw_loop k)
    have "\<not> alive s n" for n by (rule inv_no_channel [OF Cons.prems(1,2) leak])
    then show ?thesis
      using loop_step_closed [OF kw_loop(2)] kw_loop(1) by (auto simp: own_label_def loop_label_def)
  qed (simp_all add: own_label_def loop_label_def)
  then show ?case using IH [OF c] leak by (auto split: if_splits)
qed simp

end
