(* ===== verification/ConfirmInv.thy ===== *)
theory ConfirmInv
  imports MachineInv
begin

text \<open>
  Whose confirm does a caller of \<open>push\<close> read? The library confirms the messages of a
  channel in order on one notification channel that all callers share, and the code never
  compares delivery tags. As long as every caller waits for its confirm on the channel it
  published on (\<open>w_strayed\<close> is false) at most one message is unconfirmed, so the next
  confirm is the caller's own.
\<close>

section \<open>The invariant\<close>

fun awaiting :: "ppc \<Rightarrow> chan_id \<Rightarrow> bool" where
  "awaiting (PEnterConfirm _ c) d \<longleftrightarrow> d = c"
| "awaiting (PConfirm _ n) d \<longleftrightarrow> n = Some d"
| "awaiting _ d \<longleftrightarrow> False"

fun succeeded :: "ppc \<Rightarrow> bool" where
  "succeeded (PUnlock _ r) \<longleftrightarrow> r = None"
| "succeeded (PReturned r) \<longleftrightarrow> r = None"
| "succeeded _ \<longleftrightarrow> False"

fun deaf :: "ppc \<Rightarrow> bool" where
  "deaf (PConfirm _ n) \<longleftrightarrow> n = None"
| "deaf _ \<longleftrightarrow> False"

text \<open>The broker acked a copy of caller \<open>i\<close>'s message.\<close>

definition own_ack :: "'c world \<Rightarrow> nat \<Rightarrow> bool" where
  "own_ack w i \<longleftrightarrow>
     (\<exists>c k. k < length (w_sent w c) \<and> k < length (w_acked w c) \<and> w_sent w c ! k = i \<and> w_acked w c ! k)"

definition settled :: "'c world \<Rightarrow> chan_id \<Rightarrow> bool" where
  "settled w c \<longleftrightarrow>
     w_confirms w c = [] \<and> (w_chanOpen w c \<longrightarrow> length (w_acked w c) = length (w_sent w c))"

definition pending :: "'c world \<Rightarrow> chan_id \<Rightarrow> nat \<Rightarrow> bool" where
  "pending w c i \<longleftrightarrow>
     w_sent w c \<noteq> [] \<and> last (w_sent w c) = i \<and>
     (Suc (length (w_acked w c)) = length (w_sent w c) \<and> w_confirms w c = [] \<or>
      length (w_acked w c) = length (w_sent w c) \<and>
      w_confirms w c = [\<lparr>DeliveryTag = length (w_sent w c), confirmAck = last (w_acked w c)\<rparr>])"

definition chan_ok :: "'c world \<Rightarrow> chan_id \<Rightarrow> bool" where
  "chan_ok w c \<longleftrightarrow>
     (\<forall>i. awaiting (w_push w i) c \<longrightarrow> pending w c i) \<and>
     ((\<forall>i. \<not> awaiting (w_push w i) c) \<longrightarrow> settled w c)"

definition fresh_inv :: "'c world \<Rightarrow> bool" where
  "fresh_inv w \<longleftrightarrow>
     (\<forall>c. w_next w \<le> c \<longrightarrow> w_sent w c = [] \<and> w_acked w c = [] \<and> w_confirms w c = []) \<and>
     (\<forall>c. ch (w_clnt w) = Some c \<longrightarrow> c < w_next w)"

definition confirms_inv :: "'c world \<Rightarrow> bool" where
  "confirms_inv w \<longleftrightarrow>
     (\<forall>c. chan_ok w c) \<and> (\<forall>i. succeeded (w_push w i) \<longrightarrow> own_ack w i) \<and> (\<forall>i. \<not> deaf (w_push w i))"

definition confirm_inv :: "'c world \<Rightarrow> bool" where
  "confirm_inv w \<longleftrightarrow> mutex_inv w \<and> fresh_inv w \<and> (\<not> w_strayed w \<longrightarrow> confirms_inv w)"

section \<open>Frames\<close>

lemma awaiting_holds: "awaiting pc c \<Longrightarrow> holds_mutex pc"
  by (cases pc) auto

lemma after_WaitReady_quiet [simp]:
  "\<not> awaiting (after_WaitReady clnt ctx r) c" "\<not> succeeded (after_WaitReady clnt ctx r)"
  "\<not> deaf (after_WaitReady clnt ctx r)"
  by (simp_all add: after_WaitReady_def split: option.splits outcome.splits)

lemma own_ack_mono:
  "own_ack w i \<Longrightarrow> (\<And>c. \<exists>xs. w_sent v c = w_sent w c @ xs) \<Longrightarrow> (\<And>c. \<exists>ys. w_acked v c = w_acked w c @ ys) \<Longrightarrow> own_ack v i"
proof -
  assume o: "own_ack w i" and s: "\<And>c. \<exists>xs. w_sent v c = w_sent w c @ xs"
    and a: "\<And>c. \<exists>ys. w_acked v c = w_acked w c @ ys"
  from o obtain c k where k: "k < length (w_sent w c)" "k < length (w_acked w c)"
      "w_sent w c ! k = i" "w_acked w c ! k"
    by (auto simp: own_ack_def)
  obtain xs ys where "w_sent v c = w_sent w c @ xs" "w_acked v c = w_acked w c @ ys"
    using s a by blast
  then show "own_ack v i"
    using k unfolding own_ack_def by (intro exI [of _ c] exI [of _ k]) (simp add: nth_append)
qed

lemma chan_ok_frame:
  assumes "chan_ok w c"
    and "\<And>i. awaiting (w_push v i) c = awaiting (w_push w i) c"
    and "w_sent v c = w_sent w c" "w_acked v c = w_acked w c" "w_confirms v c = w_confirms w c"
    and "w_chanOpen v c \<longrightarrow> w_chanOpen w c"
  shows "chan_ok v c"
  using assms by (auto simp: chan_ok_def pending_def settled_def)

text \<open>A channel id not used yet.\<close>

lemma chan_ok_fresh:
  assumes "chan_ok w c" "\<And>i. awaiting (w_push v i) c = awaiting (w_push w i) c"
    and "w_sent w c = []" "w_sent v c = []" "w_acked v c = []" "w_confirms v c = []"
  shows "chan_ok v c"
  using assms by (auto simp: chan_ok_def pending_def settled_def)

lemma confirms_inv_frame:
  assumes "confirms_inv w" "w_push v = w_push w" "w_sent v = w_sent w" "w_acked v = w_acked w"
    and "w_confirms v = w_confirms w"
    and "\<And>c. w_chanOpen v c \<Longrightarrow> w_chanOpen w c \<or> w_sent w c = [] \<and> w_acked w c = [] \<and> w_confirms w c = []"
  shows "confirms_inv v"
proof -
  have ok: "chan_ok w c" for c using assms(1) by (simp add: confirms_inv_def)
  have "chan_ok v c" for c
  proof (cases "w_chanOpen v c \<longrightarrow> w_chanOpen w c")
    case True
    show ?thesis by (rule chan_ok_frame [OF ok]) (simp_all add: assms(2-5) True)
  next
    case False
    then have e: "w_sent w c = []" "w_acked w c = []" "w_confirms w c = []" using assms(6) by blast+
    show ?thesis by (rule chan_ok_fresh [OF ok]) (simp_all add: assms(2-5) e)
  qed
  then show ?thesis using assms(1) by (simp add: confirms_inv_def own_ack_def assms(2-4))
qed

lemma confirms_inv_reconnect:
  "reconnect_step w l v \<Longrightarrow> fresh_inv w \<Longrightarrow> confirms_inv w \<Longrightarrow> confirms_inv v"
  by (erule reconnect_stepE; rule confirms_inv_frame, assumption)
    (auto simp: fresh_inv_def split: if_splits)

lemma confirms_inv_close: "close_step w l v \<Longrightarrow> confirms_inv w \<Longrightarrow> confirms_inv v"
  by (erule close_stepE; rule confirms_inv_frame, assumption) (auto split: if_splits)

section \<open>Publishers\<close>

text \<open>A caller's step that is neither a send nor a confirm.\<close>

lemma confirms_inv_quiet:
  assumes inv: "confirms_inv w" and push: "w_push v = (w_push w)(i := pc)"
    and same: "w_sent v = w_sent w" "w_acked v = w_acked w" "w_confirms v = w_confirms w" "w_chanOpen v = w_chanOpen w"
    and a: "\<And>c. awaiting pc c = awaiting (w_push w i) c"
    and s: "succeeded pc \<Longrightarrow> succeeded (w_push w i)" and d: "\<not> deaf pc"
  shows "confirms_inv v"
proof -
  have ok: "chan_ok w c" for c using inv by (simp add: confirms_inv_def)
  have aw: "awaiting (w_push v j) c = awaiting (w_push w j) c" for j c by (simp add: push a)
  have "chan_ok v c" for c
    by (rule chan_ok_frame [OF ok aw]) (simp_all add: same)
  then show ?thesis using inv s d by (simp add: confirms_inv_def own_ack_def same push)
qed

lemma confirms_inv_send:
  assumes inv: "confirms_inv w" and push: "w_push v = (w_push w)(i := PEnterConfirm h c)"
    and sent: "w_sent v = (w_sent w)(c := w_sent w c @ [i])"
    and same: "w_acked v = w_acked w" "w_confirms v = w_confirms w" "w_chanOpen v = w_chanOpen w"
    and alone: "\<And>j d. \<not> awaiting (w_push w j) d" and c: "w_chanOpen w c"
  shows "confirms_inv v"
proof -
  have st: "settled w d" for d using inv alone by (auto simp: confirms_inv_def chan_ok_def)
  have aw: "awaiting (w_push v j) d \<longleftrightarrow> j = i \<and> d = c" for j d by (simp add: push alone)
  have "chan_ok v d" for d
    using st [of d] c by (cases "d = c") (simp_all add: chan_ok_def pending_def settled_def aw same sent)
  moreover have "own_ack v j" if "own_ack w j" for j
    by (rule own_ack_mono [OF that]) (simp_all add: same sent)
  ultimately show ?thesis using inv by (simp add: confirms_inv_def push)
qed

lemma confirms_inv_received:
  assumes inv: "confirms_inv w" and pc: "w_push w i = PConfirm h (Some c)"
    and x: "receive w (Some c) = Some x"
    and push: "w_push v = (w_push w)(i := PUnlock h (confirm_result clnt x))"
    and conf: "w_confirms v = drop_received w (Some c)"
    and same: "w_acked v = w_acked w" "w_sent v = w_sent w" "w_chanOpen v = w_chanOpen w"
    and alone: "\<And>j d. j \<noteq> i \<Longrightarrow> \<not> awaiting (w_push w j) d"
  shows "confirms_inv v"
proof -
  have p: "pending w c i" using inv pc by (auto simp: confirms_inv_def chan_ok_def)
  have "chan_ok v d" for d
  proof (cases "d = c")
    case True
    have "\<not> awaiting (w_push v j) c" for j using alone [of j c] by (simp add: push)
    moreover have "settled v c"
      using p x same conf
      by (auto simp: pending_def settled_def receive_def drop_received_def split: list.splits if_splits)
    ultimately show ?thesis using True by (simp add: chan_ok_def)
  next
    case False
    have aw: "awaiting (w_push v j) d = awaiting (w_push w j) d" for j using False by (simp add: push pc)
    have "chan_ok w d" using inv by (simp add: confirms_inv_def)
    then show ?thesis by (rule chan_ok_frame [OF _ aw]) (simp_all add: same conf drop_received_def False)
  qed
  moreover have "own_ack v i" if "confirm_result clnt x = None"
  proof -
    have "confirmAck x" using that by (simp add: confirm_result_def split: if_splits)
    then have "length (w_acked w c) = length (w_sent w c)" "w_acked w c \<noteq> []" "last (w_acked w c)"
      using p x by (auto simp: pending_def receive_def split: list.splits if_splits)
    then show ?thesis
      using p same unfolding own_ack_def pending_def
      by (intro exI [of _ c] exI [of _ "length (w_sent w c) - 1"]) (auto simp: last_conv_nth)
  qed
  moreover have "own_ack v j" if "own_ack w j" for j
    using that same by (simp add: own_ack_def)
  ultimately show ?thesis using inv by (simp add: confirms_inv_def push)
qed

lemma confirms_inv_push:
  assumes step: "push_step w l v" and mutex: "mutex_inv w" and inv: "confirms_inv w" and un: "\<not> w_strayed v"
  shows "confirms_inv v"
proof -
  have alone: "\<not> awaiting (w_push w j) d" if "holds_mutex (w_push w i)" "j \<noteq> i" for i j d
    using mutex_inv_unique [OF mutex that(1), of j] that(2) awaiting_holds by blast
  from step show ?thesis
  proof (cases rule: push_step.cases)
    case (p_send_ok i h pub answer c)
    have "\<not> awaiting (w_push w j) d" for j d
      using alone [of i j d] p_send_ok by (cases "j = i") auto
    then show ?thesis using p_send_ok by (intro confirms_inv_send [OF inv, of v i h c]) auto
  next
    case (p_received i h n x)
    obtain c where c: "n = Some c"
      using inv p_received by (cases n) (auto simp: confirms_inv_def dest!: spec [of _ i])
    have "\<not> awaiting (w_push w j) d" if "j \<noteq> i" for j d
      using alone [of i j d] p_received that by auto
    then show ?thesis
      using p_received c by (intro confirms_inv_received [OF inv, of i h c x v "w_clnt w"]) auto
  next
    case (p_left i h n r)
    with un show ?thesis by simp
  next
    case (p_entered i h c n)
    with un show ?thesis by (intro confirms_inv_quiet [OF inv, of v i "PConfirm h n"]) auto
  next
    case (p_unlocked i h r)
    then show ?thesis
      by (intro confirms_inv_quiet [OF inv, of v i "if r = None then PReturned None else PRetryWait h"])
        (auto split: if_splits)
  next
    case (p_retried i h r)
    then show ?thesis
      by (intro confirms_inv_quiet [OF inv, of v i "if r = None then PLock h else PReturned r"])
        (auto split: if_splits)
  qed (rule confirms_inv_quiet [OF inv], simp, simp, simp, simp, simp,
      simp split: sum.splits, simp split: sum.splits, simp split: sum.splits)+
qed

lemma fresh_inv_push: "push_step w l v \<Longrightarrow> fresh_inv w \<Longrightarrow> fresh_inv v"
  by (erule push_stepE) (auto simp: fresh_inv_def drop_received_def split: option.splits)

lemma fresh_inv_reconnect: "reconnect_step w l v \<Longrightarrow> fresh_inv w \<Longrightarrow> fresh_inv v"
  by (erule reconnect_stepE) (auto simp: fresh_inv_def)

lemma fresh_inv_env: "env_step w l v \<Longrightarrow> fresh_inv w \<Longrightarrow> fresh_inv v"
  by (erule env_stepE) (auto simp: fresh_inv_def)

section \<open>The broker\<close>

lemma confirms_inv_confirm:
  assumes inv: "confirms_inv w" and less: "length (w_acked w c) < length (w_sent w c)"
    and c: "w_chanOpen w c"
    and acked: "w_acked v = (w_acked w)(c := w_acked w c @ [b])"
    and conf: "w_confirms v = (w_confirms w)(c := w_confirms w c @
                 [\<lparr>DeliveryTag = Suc (length (w_acked w c)), confirmAck = b\<rparr>])"
    and same: "w_push v = w_push w" "w_sent v = w_sent w" "w_chanOpen v = w_chanOpen w"
  shows "confirms_inv v"
proof -
  have ok: "chan_ok w d" for d using inv by (simp add: confirms_inv_def)
  have "chan_ok v d" for d
  proof (cases "d = c")
    case False
    show ?thesis by (rule chan_ok_frame [OF ok]) (simp_all add: same acked conf False)
  next
    case True
    have "\<not> settled w c" using less c by (simp add: settled_def)
    then have "\<exists>i. awaiting (w_push w i) c" using ok [of c] by (auto simp: chan_ok_def)
    moreover have "pending v c i" if "pending w c i" for i
      using that less by (auto simp: pending_def same acked conf)
    ultimately show ?thesis using ok [of c] True by (simp add: chan_ok_def same) blast
  qed
  moreover have "own_ack v j" if "own_ack w j" for j
    by (rule own_ack_mono [OF that]) (simp_all add: same acked)
  ultimately show ?thesis using inv by (simp add: confirms_inv_def same)
qed

lemma confirms_inv_env: "env_step w l v \<Longrightarrow> confirms_inv w \<Longrightarrow> confirms_inv v"
proof (erule env_stepE)
  fix c b
  assume "confirms_inv w" "w_chanOpen w c" "length (w_acked w c) < length (w_sent w c)"
    "v = w\<lparr>w_acked := (w_acked w)(c := w_acked w c @ [b]),
          w_confirms := (w_confirms w)(c := w_confirms w c @
             [\<lparr>DeliveryTag = Suc (length (w_acked w c)), confirmAck = b\<rparr>])\<rparr>"
  then show "confirms_inv v" by (intro confirms_inv_confirm [of w c v b]) auto
qed (rule confirms_inv_frame, assumption, auto split: if_splits)+

section \<open>All steps\<close>

lemma confirm_inv_step:
  assumes "machine_step w l v" "confirm_inv w"
  shows "confirm_inv v"
proof -
  have m: "mutex_inv v" using mutex_inv_step assms by (auto simp: confirm_inv_def)
  from assms(1) show ?thesis
  proof (cases rule: machine_step.cases)
    case (m_reconnect l)
    then show ?thesis
      using m assms(2) reconnect_frame [of w l v] fresh_inv_reconnect [of w l v] confirms_inv_reconnect [of w l v]
      by (simp add: confirm_inv_def)
  next
    case (m_push i l)
    have "w_strayed w \<longrightarrow> w_strayed v" using m_push(2) by (auto elim: push_stepE)
    then show ?thesis
      using m m_push assms(2) fresh_inv_push [of w "(i, l)" v] confirms_inv_push [of w "(i, l)" v]
      by (auto simp: confirm_inv_def)
  next
    case (m_close l)
    then show ?thesis
      using m assms(2) close_frame [of w l v] confirms_inv_close [of w l v]
      by (simp add: confirm_inv_def fresh_inv_def)
  next
    case (m_env l)
    then show ?thesis
      using m assms(2) env_frame [of w l v] fresh_inv_env [of w l v] confirms_inv_env [of w l v]
      by (simp add: confirm_inv_def)
  qed
qed

lemma confirm_inv_start: "confirm_inv (publisher_start name item conf opts calls)"
  unfolding confirm_inv_def using mutex_inv_start [of name item conf opts calls]
  by (simp add: fresh_inv_def confirms_inv_def chan_ok_def settled_def start_defs)

interpretation confirm: invariant_system "publisher_start name item conf opts calls" machine_step confirm_inv
  for name item conf opts calls
  by unfold_locales (blast intro: confirm_inv_start confirm_inv_step)+

end
