(* ===== verification/MachineRuns.thy ===== *)
theory MachineRuns
  imports ConfirmInv
begin

text \<open>
  Concrete runs of the client machine, evaluated step by step, and the properties of the
  machine. A run is a list of labels from the start of a publisher's client; the runs of the
  last section show what the interleavings allow that the sequential reading hides.
\<close>

section \<open>Runs\<close>

definition plain_item :: queue_item where
  "plain_item = \<lparr>Retry_of = None, ConsumerOnly = False\<rparr>"

definition demo_message :: publish_message where
  "demo_message = \<lparr>msg_Body = [1], msg_ContentType = [], msg_MaxRetryDuration = None, msg_Priority = None\<rparr>"

text \<open>Callers 0 and 1 publish a plain message, caller 2 one with priority 10.\<close>

definition demo_calls :: "nat \<Rightarrow> nat \<times> publish_message" where
  "demo_calls i = (0, if i = 2 then demo_message\<lparr>msg_Priority := Some 10\<rparr> else demo_message)"

definition demo_start :: "nat world" where
  "demo_start = publisher_start ''plain'' plain_item sample_config defaultOptions demo_calls"

text \<open>The first call starts the loop; it dials and initializes the channel (ids 0 and 1).\<close>

definition boot :: "label list" where
  "boot = [P 0 PCall, R RStore0, R RDialOk, R RInitStore0, R ROpenOk, R RNotify, R RDeclareOk,
           R RStore1, R RReadyClosed]"

definition demo_client :: "nat client" where
  "demo_client = (newPublisherClient ''plain'' plain_item sample_config defaultOptions)
     \<lparr>startOnce := True, conn := Some 0, notifyConnClose := Some 0, ch := Some 1,
      notifyChanClose := Some 1, notifyConfirm := Some 1, isReady := True, ready_closed := True\<rparr>"

definition demo_ready :: "nat world" where
  "demo_ready = demo_start
     \<lparr>w_clnt := demo_client, w_rpc := RWait 0, w_push := (\<lambda>_. PIdle)(0 := PWaitReady), w_next := 2,
      w_connOpen := (\<lambda>_. False)(0 := True), w_chanOpen := (\<lambda>_. False)(1 := True)\<rparr>"

lemma boot_run: "run machine_step demo_start boot demo_ready"
  by (simp add: boot_def step_simps demo_start_def start_defs demo_ready_def demo_client_def)

lemma boot_reach: "run machine_step demo_ready ls w \<Longrightarrow> reach demo_start machine_step w"
  by (rule reach_run [OF run_reach [OF boot_run]])

lemma demo_unfold:
  "w_clnt demo_ready = demo_client" "w_rpc demo_ready = RWait 0"
  "w_push demo_ready = (\<lambda>_. PIdle)(0 := PWaitReady)" "w_mutex demo_ready = None"
  "w_cpc demo_ready = CIdle" "w_ctxErr demo_ready = (\<lambda>_. None)" "w_next demo_ready = 2"
  "w_calls demo_ready = demo_calls"
  "w_sent demo_ready = (\<lambda>_. [])" "w_acked demo_ready = (\<lambda>_. [])" "w_confirms demo_ready = (\<lambda>_. [])"
  "w_connOpen demo_ready = (\<lambda>_. False)(0 := True)" "w_chanOpen demo_ready = (\<lambda>_. False)(1 := True)"
  "w_strayed demo_ready = False"
  by (simp_all add: demo_ready_def demo_start_def start_defs)

lemma demo_client_unfold:
  "isReady demo_client" "ready_closed demo_client" "\<not> done_closed demo_client" "startOnce demo_client"
  "ch demo_client = Some 1" "conn demo_client = Some 0" "notifyConfirm demo_client = Some 1"
  "notifyConnClose demo_client = Some 0" "notifyChanClose demo_client = Some 1"
  "queueName demo_client = ''plain''" "retry demo_client = None"
  "PublishHeadersBuilder demo_client = Some (\<lambda>_. Returned gm_make)"
  by (simp_all add: demo_client_def newPublisherClient_def newClient_def plain_item_def defaultOptions_def)

lemmas demo_simps = step_simps demo_unfold demo_client_unfold demo_calls_def demo_message_def
  WaitReady_def after_WaitReady_def unsafePush_prepare_def unsafePush_send_def Let_def
  waitPublishConfirm_def waitBeforePushRetry_def confirm_result_def receive_def drop_received_def

definition publish_once :: "nat \<Rightarrow> label list" where
  "publish_once i = [P i (PWaited None), P i PLocked, P i (PPrepared (Time 0) (Time 0)), P i (PSent None), P i PEntered]"

lemma demo_success:
  "\<exists>w. run machine_step demo_ready
      (publish_once 0 @ [E (EConfirm 1 True), P 0 PReceived, P 0 PUnlocked]) w \<and>
    w_push w 0 = PReturned None \<and> \<not> w_strayed w"
  by (simp add: publish_once_def demo_simps)

definition canceled_error :: go_error where
  "canceled_error = Errorf ''%w %q'' [''plain''] [Sentinel ErrContextCanceledBeforeAck]"

text \<open>Caller 0 gives up before the confirm of its message arrives; caller 1 takes it for its own.\<close>

definition wrong_ack_run :: "label list" where
  "wrong_ack_run = publish_once 0 @
     [E (ECancel 0 Canceled), P 0 (PLeft (Some canceled_error)), P 0 PUnlocked, P 0 (PRetried (Some canceled_error)),
      P 1 PCall] @ publish_once 1 @
     [E (EConfirm 1 True), P 1 PReceived, P 1 PUnlocked, E (EConfirm 1 False)]"

lemma demo_wrong_ack:
  "\<exists>w. run machine_step demo_ready wrong_ack_run w \<and> w_push w 1 = PReturned None \<and>
     w_sent w = (\<lambda>_. [])(1 := [0, 1]) \<and> w_acked w = (\<lambda>_. [])(1 := [True, False])"
  by (simp add: wrong_ack_run_def canceled_error_def publish_once_def demo_simps)

text \<open>The channel drops between the ready check of \<open>unsafePush\<close> and its send; the new one fails to initialize.\<close>

definition nil_channel_run :: "label list" where
  "nil_channel_run =
     [P 0 (PWaited None), P 0 PLocked, P 0 (PPrepared (Time 0) (Time 0)), E (EChanDrop 1), R RWaitChan,
      R RInitStore0, R ROpenOk, R RNotify, R RDeclareFail, P 0 (PSent None)]"

lemma demo_nil_channel:
  "\<exists>w. run machine_step demo_ready nil_channel_run w \<and> w_push w 0 = PPanicked NilChannel \<and> w_mutex w = Some 0"
  by (simp add: nil_channel_run_def demo_simps chan_closed_notified_def)

text \<open>A channel replaced between the send and the wait.\<close>

definition lost_confirm_run :: "label list" where
  "lost_confirm_run =
     [P 0 (PWaited None), P 0 PLocked, P 0 (PPrepared (Time 0) (Time 0)), P 0 (PSent None), E (EConfirm 1 True),
      E (EChanDrop 1), R RWaitChan, R RInitStore0, R ROpenOk, R RNotify, R RDeclareOk, R RStore1, R RReadyClosed,
      P 0 PEntered]"

lemma demo_lost_confirm:
  "\<exists>w. run machine_step demo_ready lost_confirm_run w \<and> (\<exists>h. w_push w 0 = PConfirm h (Some 2)) \<and>
     w_mutex w = Some 0 \<and> w_sent w = (\<lambda>_. [])(1 := [0]) \<and> w_acked w = (\<lambda>_. [])(1 := [True]) \<and>
     w_confirms w 2 = [] \<and> w_chanOpen w 2 \<and>
     \<not> done_closed (w_clnt w) \<and> w_ctxErr w 0 = None"
  by (simp add: lost_confirm_run_def demo_simps chan_closed_notified_def)

text \<open>\<open>close\<close> runs to its end while the loop is inside \<open>amqp.Dial\<close>.\<close>

definition late_dial_run :: "label list" where
  "late_dial_run =
     [P 0 PCall, R RStore0, C CEnter, C CStored, C CDoneClosed, C (CChanClosed None), C (CConnClosed None),
      R RDialOk, R RInitStore0, R ROpenOk, R RNotify, R RDeclareOk, R RStore1, R RReadyClosed, R RWaitDone]"

lemma demo_late_dial:
  "\<exists>w. run machine_step demo_start late_dial_run w \<and> w_cpc w = CClosed None \<and> w_rpc w = RDone \<and>
     w_connOpen w 0 \<and> conn (w_clnt w) = Some 0 \<and> isReady (w_clnt w)"
  by (simp add: late_dial_run_def step_simps demo_start_def start_defs)

text \<open>Caller 2's priority is out of range: it fails, waits and tries again.\<close>

definition bad_priority_run :: "label list" where
  "bad_priority_run =
     [P 2 PCall, P 2 (PWaited None), P 2 PLocked, P 2 (PPrepared (Time 0) (Time 0)), P 2 PUnlocked,
      P 2 (PRetried None)]"

lemma demo_bad_priority:
  "\<exists>w. run machine_step demo_ready bad_priority_run w \<and> (\<exists>h. w_push w 2 = PLock h) \<and> w_calls w = demo_calls"
  by (simp add: bad_priority_run_def demo_simps maxPublishMessagePriority_def)

lemma demo_canceled:
  "\<exists>w. run machine_step demo_ready
     (publish_once 0 @ [E (ECancel 0 Canceled), P 0 (PLeft (Some canceled_error)), P 0 PUnlocked,
        P 0 (PRetried (Some canceled_error))]) w \<and> w_push w 0 = PReturned (Some canceled_error)"
  by (simp add: canceled_error_def publish_once_def demo_simps)

lemma demo_reached:
  assumes "\<exists>w. run machine_step demo_ready ls w \<and> Q w"
  shows "\<exists>w. reach (publisher_start ''plain'' plain_item sample_config defaultOptions demo_calls) machine_step w \<and> Q w"
  using assms boot_reach unfolding demo_start_def by blast

section \<open>Properties\<close>

text \<open>
  C17. Mutual exclusion of publishers. In every reachable state of a publisher's client, a caller
  that is between \<open>pushMu.Lock\<close> and \<open>pushMu.Unlock\<close> (building, sending or waiting for the
  confirm) is the one holder of the mutex.
\<close>

theorem publishers_exclude_each_other:
  assumes "reach (publisher_start name item conf opts calls) machine_step w" "holds_mutex (w_push w i)"
  shows "w_mutex w = Some i \<and> (\<forall>j. holds_mutex (w_push w j) \<longrightarrow> j = i)"
  using mutex.inv_reach [OF assms(1)] mutex_inv_unique [of w] assms(2) unfolding mutex_inv_def by blast

theorem publishers_exclude_each_other_witness:
  "\<exists>w. reach (publisher_start ''plain'' plain_item sample_config defaultOptions demo_calls) machine_step w \<and>
     w_mutex w = Some 0 \<and> \<not> holds_mutex (w_push w 1)"
proof -
  obtain w h where w: "reach (publisher_start ''plain'' plain_item sample_config defaultOptions demo_calls) machine_step w"
      "w_push w 0 = PConfirm h (Some 2)"
    using demo_reached [OF demo_lost_confirm] by blast
  have "holds_mutex (w_push w 0)" by (simp add: w)
  from publishers_exclude_each_other [OF w(1) this] w(1) show ?thesis by force
qed

text \<open>
  C18. What \<open>isReady\<close> promises. In every reachable state, a client that says it is ready has
  a channel, and its reconnect loop is neither dialling for the first time nor inside \<open>init\<close>.
\<close>

theorem ready_client_has_channel:
  assumes "reach (publisher_start name item conf opts calls) machine_step w" "isReady (w_clnt w)"
  shows "ch (w_clnt w) \<noteq> None \<and> \<not> initializing (w_rpc w)"
  using ready.inv_reach [OF assms(1)] assms(2) by (auto simp: ready_inv_def)

theorem ready_client_has_channel_witness:
  "isReady (w_clnt demo_ready) \<and> ch (w_clnt demo_ready) \<noteq> None"
proof -
  have "reach (publisher_start ''plain'' plain_item sample_config defaultOptions demo_calls) machine_step demo_ready"
    using run_reach [OF boot_run] by (simp add: demo_start_def)
  from ready_client_has_channel [OF this] show ?thesis by (simp add: demo_unfold demo_client_unfold)
qed

text \<open>
  C16. What a publish can report. An error \<open>push\<close> returns is always that the client was
  closed or that the caller's context ended: never that the broker nacked, that the send
  failed, that the client was not connected or that the priority was invalid, however the
  goroutines interleave.
\<close>

theorem push_error_kinds:
  assumes "reach (publisher_start name item conf opts calls) machine_step w" "w_push w i = PReturned (Some e)"
  shows "push_error e \<and>
    (\<forall>s \<in> {ErrPublishNack, ErrPublishFailed, ErrQueueConnectionClosed, ErrPushQueueConnectionClosed, ErrInvalidPriority}.
       \<not> errors_is e s)"
proof -
  have e: "only_push_errors e"
    using result.inv_reach [OF assms(1)] assms(2) unfolding result_inv_def by blast
  have "s \<in> {ErrClientClosedBeforeReady, ErrDoneSignalBeforeAck, ErrContextCanceledBeforeAck}" if "errors_is e s" for s
    using e that unfolding only_push_errors_def by blast
  then show ?thesis using e unfolding only_push_errors_def by fast
qed

theorem push_error_kinds_witness:
  "\<exists>w :: nat world. w_push w 0 = PReturned (Some canceled_error) \<and> \<not> errors_is canceled_error ErrPublishNack"
proof -
  obtain w where w: "reach (publisher_start ''plain'' plain_item sample_config defaultOptions demo_calls) machine_step w"
      "w_push w 0 = PReturned (Some canceled_error)"
    using demo_reached [OF demo_canceled] by blast
  have "\<not> errors_is canceled_error ErrPublishNack" using push_error_kinds [OF w] by simp
  with w(2) show ?thesis by blast
qed

text \<open>
  C27. An invalid priority. A message whose priority is above 9 is never sent, and its
  \<open>push\<close> never returns success.
\<close>

theorem invalid_priority_never_sent:
  assumes "reach (publisher_start name item conf opts calls) machine_step w"
    and "msg_Priority (snd (calls i)) = Some p" "9 < p"
  shows "w_push w i \<noteq> PReturned None \<and> (\<forall>c. i \<notin> set (w_sent w c))"
proof -
  have "w_calls w = calls" using assms(1)
    by (induction rule: reach.induct)
      (auto simp: start_defs elim!: machine_stepE elim: push_stepE dest: reconnect_frame close_frame env_frame)
  then have "bad_priority w i" using assms(2,3) by (simp add: bad_priority_def maxPublishMessagePriority_def)
  with priority.inv_reach [OF assms(1)] show ?thesis
    unfolding priority_inv_def by (metis past_prepare.simps(5))
qed

theorem invalid_priority_never_sent_witness:
  "\<exists>w h. reach (publisher_start ''plain'' plain_item sample_config defaultOptions demo_calls) machine_step w \<and>
     w_push w 2 = PLock h \<and> 2 \<notin> set (w_sent w 1)"
proof -
  obtain w h where w: "reach (publisher_start ''plain'' plain_item sample_config defaultOptions demo_calls) machine_step w"
      "w_push w 2 = PLock h"
    using demo_reached [OF demo_bad_priority] by blast
  show ?thesis
    using w invalid_priority_never_sent [OF w(1), of 2 10] by (auto simp: demo_calls_def)
qed

text \<open>
  C2. Publisher confirms. As long as every caller waits for its confirm on the channel it
  published on and none gives up waiting, a \<open>push\<close> that returned success had a copy of its
  own message acked by the broker.
\<close>

theorem push_success_is_own_ack:
  assumes "reach (publisher_start name item conf opts calls) machine_step w" "\<not> w_strayed w"
    and "w_push w i = PReturned None"
  shows "own_ack w i"
proof -
  have "succeeded (w_push w i)" by (simp add: assms(3))
  then show ?thesis
    using confirm.inv_reach [OF assms(1)] assms(2) by (simp add: confirm_inv_def confirms_inv_def)
qed

theorem push_success_is_own_ack_witness:
  "\<exists>w :: nat world. w_push w 0 = PReturned None \<and> own_ack w 0"
proof -
  obtain w where w: "reach (publisher_start ''plain'' plain_item sample_config defaultOptions demo_calls) machine_step w"
      "\<not> w_strayed w" "w_push w 0 = PReturned None"
    using demo_reached [OF demo_success] by blast
  show ?thesis using push_success_is_own_ack [OF w] w(3) by blast
qed


text \<open>
  A nil channel. \<open>unsafePush\<close> checks \<open>isReady\<close> and reads \<open>ch\<close> later: when the
  channel drops in between and the new one cannot be initialized, the send is a method call on
  nil. The goroutine panics and \<open>pushMu\<close> stays locked.
\<close>

theorem send_can_panic_on_nil_channel:
  "\<exists>w. reach (publisher_start ''plain'' plain_item sample_config defaultOptions demo_calls) machine_step w \<and>
     w_push w 0 = PPanicked NilChannel \<and> w_mutex w = Some 0"
  by (rule demo_reached [OF demo_nil_channel])

text \<open>
  A confirm that cannot come. When the channel is replaced between a send and its wait,
  the caller waits on the new channel, on which nothing was published: it cannot move until
  its context ends, the client closes or the new channel drops too, and it holds the mutex.
\<close>

theorem confirm_wait_can_strand:
  "\<exists>w h. reach (publisher_start ''plain'' plain_item sample_config defaultOptions demo_calls) machine_step w \<and>
     w_push w 0 = PConfirm h (Some 2) \<and> w_mutex w = Some 0 \<and> own_ack w 0 \<and>
     (\<forall>l v. \<not> push_step w (0, l) v) \<and> (\<forall>b v. \<not> env_step w (EConfirm 2 b) v)"
proof -
  obtain w h where w: "reach (publisher_start ''plain'' plain_item sample_config defaultOptions demo_calls) machine_step w"
      "w_push w 0 = PConfirm h (Some 2)" "w_mutex w = Some 0" "w_sent w = (\<lambda>_. [])(1 := [0])"
      "w_acked w = (\<lambda>_. [])(1 := [True])" "w_confirms w 2 = []" "w_chanOpen w 2"
      "\<not> done_closed (w_clnt w)" "w_ctxErr w 0 = None"
    using demo_reached [OF demo_lost_confirm] by blast
  have "\<not> push_step w (0, l) v" for l v
    using w by (auto elim!: push_stepE simp: receive_def waitPublishConfirm_results)
  moreover have "\<not> env_step w (EConfirm 2 b) v" for b v by (auto simp: env_step_simps w(4,5))
  moreover have "own_ack w 0" unfolding own_ack_def by (intro exI [of _ 1] exI [of _ 0]) (simp add: w(4,5))
  ultimately show ?thesis using w(1-3) by blast
qed

text \<open>
  A connection nobody closes. When \<open>close\<close> runs while the loop is inside
  \<open>amqp.Dial\<close>, the loop then installs the new connection, declares the queue, marks the
  client ready and ends: \<open>close\<close> has returned without an error and the connection is open.
\<close>

theorem close_during_dial_leaks_connection:
  "\<exists>w. reach (publisher_start ''plain'' plain_item sample_config defaultOptions demo_calls) machine_step w \<and>
     w_cpc w = CClosed None \<and> w_rpc w = RDone \<and> w_connOpen w 0 \<and> conn (w_clnt w) = Some 0 \<and> isReady (w_clnt w)"
proof -
  obtain w where w: "run machine_step demo_start late_dial_run w"
      "w_cpc w = CClosed None" "w_rpc w = RDone" "w_connOpen w 0" "conn (w_clnt w) = Some 0" "isReady (w_clnt w)"
    using demo_late_dial by blast
  show ?thesis
    using run_reach [OF w(1)] w(2-) unfolding demo_start_def by (intro exI [of _ w]) simp
qed

text \<open>
  C26. The reconnect loop does not get stuck. In every reachable state, a loop that was started
  can take a step of its own, or it has ended because the client was closed, or it rests on a
  connection and a channel that are both open, having announced the client ready.
\<close>

theorem reconnect_loop_rests_only_when_healthy:
  assumes "reach (publisher_start name item conf opts calls) machine_step w" "w_rpc w \<noteq> RUnstarted"
  shows "(\<exists>l v. reconnect_step w l v) \<or> w_rpc w = RDone \<and> done_closed (w_clnt w) \<or>
    (\<exists>c n. w_rpc w = RWait c \<and> w_connOpen w c \<and> ch (w_clnt w) = Some n \<and> w_chanOpen w n \<and> ready_closed (w_clnt w))"
proof (cases "\<exists>l v. reconnect_step w l v")
  case False
  have inv: "rest_inv w" by (rule rest.inv_reach [OF assms(1)])
  from False have "w_rpc w = RDone \<or>
      (\<exists>c. w_rpc w = RWait c \<and> \<not> conn_closed_notified w \<and> \<not> chan_closed_notified w)"
    using stuck_places [of w] assms(2) by blast
  then show ?thesis
  proof
    assume "w_rpc w = RDone"
    with inv show ?thesis by (simp add: rest_inv_def)
  next
    assume "\<exists>c. w_rpc w = RWait c \<and> \<not> conn_closed_notified w \<and> \<not> chan_closed_notified w"
    then obtain c where c: "w_rpc w = RWait c" "\<not> conn_closed_notified w" "\<not> chan_closed_notified w" by blast
    with inv show ?thesis
      by (simp add: rest_inv_def conn_closed_notified_def chan_closed_notified_def) blast
  qed
qed simp

theorem reconnect_loop_rests_only_when_healthy_witness:
  "w_connOpen demo_ready 0 \<and> w_chanOpen demo_ready 1 \<and> (\<forall>l v. \<not> reconnect_step demo_ready l v)"
proof -
  have r: "reach (publisher_start ''plain'' plain_item sample_config defaultOptions demo_calls) machine_step demo_ready"
    using run_reach [OF boot_run] by (simp add: demo_start_def)
  have "\<not> reconnect_step demo_ready l v" for l v
    by (auto elim!: reconnect_stepE simp: demo_unfold demo_client_unfold conn_closed_notified_def chan_closed_notified_def)
  then show ?thesis
    using reconnect_loop_rests_only_when_healthy [OF r] by (simp add: demo_unfold demo_client_unfold)
qed

end
