(* ===== verification/Refinement.thy ===== *)
theory Refinement
  imports Prelude
begin

text \<open>
  The interface between a detailed step relation and the abstract specification it implements.
  A step of the detailed system is one abstract step or none; \<open>good\<close> marks the states the
  refinement speaks of, and a state reached from a bad one is bad.
\<close>

locale forward_simulation =
  concrete: invariant_system start step inv
  for start :: "'s" and step :: "'s \<Rightarrow> 'e \<Rightarrow> 's \<Rightarrow> bool" and inv :: "'s \<Rightarrow> bool" +
  fixes good :: "'s \<Rightarrow> bool"
    and abs :: "'s \<Rightarrow> 'a"
    and astart :: "'a"
    and astep :: "'a \<Rightarrow> 'l \<Rightarrow> 'a \<Rightarrow> bool"
  assumes abs_start: "abs start = astart"
    and good_before: "step s e t \<Longrightarrow> good t \<Longrightarrow> good s"
    and simulates: "inv s \<Longrightarrow> good t \<Longrightarrow> step s e t \<Longrightarrow> abs t = abs s \<or> (\<exists>l. astep (abs s) l (abs t))"
begin

lemma good_run: "run step s es t \<Longrightarrow> good t \<Longrightarrow> good s"
  by (induction es arbitrary: s) (auto intro: good_before)

lemma simulates_run: "inv s \<Longrightarrow> run step s es t \<Longrightarrow> good t \<Longrightarrow> \<exists>ls. run astep (abs s) ls (abs t)"
proof (induction es arbitrary: s)
  case Nil
  then show ?case by (intro exI [of _ "[]"]) simp
next
  case (Cons e es)
  then obtain u where u: "step s e u" "run step u es t" by auto
  obtain ls where ls: "run astep (abs u) ls (abs t)"
    using Cons.IH [OF concrete.inv_step [OF Cons.prems(1) u(1)] u(2) Cons.prems(3)] by blast
  have "abs u = abs s \<or> (\<exists>l. astep (abs s) l (abs u))"
    by (rule simulates [OF Cons.prems(1) good_run [OF u(2) Cons.prems(3)] u(1)])
  then show ?case
  proof
    assume "abs u = abs s"
    then show ?thesis using ls by auto
  next
    assume "\<exists>l. astep (abs s) l (abs u)"
    then obtain l where "astep (abs s) l (abs u)" by blast
    then have "run astep (abs s) (l # ls) (abs t)" using ls by auto
    then show ?thesis by blast
  qed
qed

lemma simulates_reach: "reach start step s \<Longrightarrow> good s \<Longrightarrow> reach astart astep (abs s)"
proof (induction rule: reach.induct)
  case reach_start
  show ?case by (simp add: abs_start reach.reach_start)
next
  case (reach_step s e t)
  have "reach astart astep (abs s)" using reach_step good_before by blast
  moreover have "abs t = abs s \<or> (\<exists>l. astep (abs s) l (abs t))"
    using simulates [OF concrete.inv_reach [OF reach_step(1)] reach_step.prems reach_step(2)] .
  ultimately show ?case by (auto intro: reach.reach_step)
qed

end

end
