(* ===== verification/ConsumerRuns.thy ===== *)
theory ConsumerRuns
  imports ConsumerMachine MachineRuns StoreProps Refinement
begin

text \<open>
  What a consumer promises, as a specification of a few states that the machine of one consumer
  (ConsumerMachine) refines, the properties of the machine and the runs that break the promise.
\<close>

section \<open>The contract of a consumer\<close>

text \<open>
  Closed or not, and where its loop is. It subscribes and receives only while it is open; what it
  has received it handles, and it may lose its channel, stop or crash at any time.
\<close>

datatype loop_pc =
    LNone \<comment> \<open>no loop for this client\<close>
  | LTop
  | LSelect \<comment> \<open>in the \<open>select\<close> of \<open>processDeliveries\<close>\<close>
  | LGot amqp_delivery \<comment> \<open>received, not yet in \<open>handleDelivery\<close>\<close>
  | LHandling amqp_delivery
  | LEnded
  | LCrashed

record contract =
  ct_closed :: bool
  ct_pc :: loop_pc

datatype contract_label =
    CtStart | CtSubscribe | CtReceive amqp_delivery | CtLost | CtCount | CtHandled | CtStop | CtCrash | CtClose

inductive contract_step :: "contract \<Rightarrow> contract_label \<Rightarrow> contract \<Rightarrow> bool" where
  ct_start: "ct_pc c = LNone \<Longrightarrow> contract_step c CtStart (c\<lparr>ct_pc := LTop\<rparr>)"
| ct_subscribe:
  "ct_pc c = LTop \<Longrightarrow> \<not> ct_closed c \<Longrightarrow> contract_step c CtSubscribe (c\<lparr>ct_pc := LSelect\<rparr>)"
| ct_receive:
  "ct_pc c = LSelect \<Longrightarrow> \<not> ct_closed c \<Longrightarrow> contract_step c (CtReceive d) (c\<lparr>ct_pc := LGot d\<rparr>)"
| ct_lost: "ct_pc c = LSelect \<Longrightarrow> contract_step c CtLost (c\<lparr>ct_pc := LTop\<rparr>)"
| ct_count: "ct_pc c = LGot d \<Longrightarrow> contract_step c CtCount (c\<lparr>ct_pc := LHandling d\<rparr>)"
| ct_handled: "ct_pc c = LHandling d \<Longrightarrow> contract_step c CtHandled (c\<lparr>ct_pc := LSelect\<rparr>)"
| ct_stop: "ct_pc c = LTop \<Longrightarrow> contract_step c CtStop (c\<lparr>ct_pc := LEnded\<rparr>)"
| ct_crash:
  "ct_pc c \<in> {LTop, LSelect, LHandling d} \<Longrightarrow> contract_step c CtCrash (c\<lparr>ct_pc := LCrashed\<rparr>)"
| ct_close: "\<not> ct_closed c \<Longrightarrow> contract_step c CtClose (c\<lparr>ct_closed := True\<rparr>)"

inductive_cases contract_stepE: "contract_step c l c'"

inductive_simps contract_step_simps:
  "contract_step c CtStart c'" "contract_step c CtSubscribe c'" "contract_step c (CtReceive d) c'"
  "contract_step c CtLost c'" "contract_step c CtCount c'" "contract_step c CtHandled c'"
  "contract_step c CtStop c'" "contract_step c CtCrash c'" "contract_step c CtClose c'"

text \<open>Once closed, it stays closed and receives nothing.\<close>

lemma contract_closed_step: "contract_step c l c' \<Longrightarrow> ct_closed c \<Longrightarrow> ct_closed c' \<and> l \<noteq> CtReceive d"
  by (erule contract_stepE) simp_all

lemma contract_closed_run:
  "run contract_step c ls c' \<Longrightarrow> ct_closed c \<Longrightarrow> ct_closed c' \<and> CtReceive d \<notin> set ls"
proof (induction ls arbitrary: c)
  case (Cons l ls)
  then obtain u where u: "contract_step c l u" "run contract_step u ls c'" by auto
  have "ct_closed u \<and> l \<noteq> CtReceive d" by (rule contract_closed_step [OF u(1) Cons.prems(2)])
  then show ?case using Cons.IH [OF u(2)] by auto
qed simp

text \<open>A delivery handled in the end was being handled, or received, when the consumer was closed.\<close>

fun busy_with :: "loop_pc \<Rightarrow> amqp_delivery option" where
  "busy_with (LGot d) = Some d"
| "busy_with (LHandling d) = Some d"
| "busy_with _ = None"

lemma contract_busy_step:
  "contract_step c l c' \<Longrightarrow> ct_closed c \<Longrightarrow> busy_with (ct_pc c') = Some d \<Longrightarrow> busy_with (ct_pc c) = Some d"
  by (erule contract_stepE) simp_all

lemma contract_busy:
  "run contract_step c ls c' \<Longrightarrow> ct_closed c \<Longrightarrow> busy_with (ct_pc c') = Some d \<Longrightarrow> busy_with (ct_pc c) = Some d"
proof (induction ls arbitrary: c)
  case (Cons l ls)
  then obtain u where u: "contract_step c l u" "run contract_step u ls c'" by auto
  show ?case
    using contract_busy_step [OF u(1) Cons.prems(2)] Cons.IH [OF u(2)] contract_closed_step [OF u(1) Cons.prems(2)]
      Cons.prems(3) by blast
qed simp

section \<open>The machine refines it\<close>

fun phase :: "kpc \<Rightarrow> loop_pc" where
  "phase KNew = LNone"
| "phase (KNilCheck _ _) = LSelect"
| "phase (KNotify _ _) = LSelect"
| "phase (KSelect _ _ _) = LSelect"
| "phase (KGot _ _ _ dl) = LGot dl"
| "phase (KHandling _ _ _ dl) = LHandling dl"
| "phase KEnded = LEnded"
| "phase (KCrashed _) = LCrashed"
| "phase _ = LTop"

definition contract_of :: "'c consumer_world \<Rightarrow> contract" where
  "contract_of s = \<lparr>ct_closed = cw_closed s, ct_pc = phase (cw_loop s)\<rparr>"

lemma contract_of_simps [simp]:
  "ct_closed (contract_of s) = cw_closed s"
  "ct_pc (contract_of s) = phase (cw_loop s)"
  by (simp_all add: contract_of_def)

lemma loop_meets_contract:
  assumes "loop_step queue loopCtx s l t" "\<And>n. cw_closed s \<Longrightarrow> \<not> alive s n"
  shows "contract_of t = contract_of s \<or> (\<exists>c. contract_step (contract_of s) c (contract_of t))"
proof -
  have t: "contract_of t = (contract_of s)\<lparr>ct_pc := phase (cw_loop t)\<rparr>"
    using loop_frame_alive [OF assms(1)] by (simp add: contract_of_def)
  show ?thesis
    using assms unfolding t
    by (cases rule: loop_step.cases)
      (auto simp: contract_step.simps split: option.splits)
qed

lemma contract_of_close: "closed_pc (w_cpc v) \<or> \<not> closed_pc (w_cpc (cw s)) \<Longrightarrow>
    contract_of (s\<lparr>cw := v\<rparr>) = contract_of s \<or> contract_step (contract_of s) CtClose (contract_of (s\<lparr>cw := v\<rparr>))"
  by (auto simp: contract_of_def cw_closed_def contract_step_simps)

lemma step_meets_contract:
  assumes "consumer_inv s" "\<not> cw_leaked s" "consumer_step queue loopCtx s l t"
  shows "contract_of t = contract_of s \<or> (\<exists>c. contract_step (contract_of s) c (contract_of t))"
  using assms(3)
proof (cases rule: consumer_step.cases)
  case (kw_reconnect l v)
  then show ?thesis using reconnect_keeps_close by (fastforce simp: contract_of_def cw_closed_def)
next
  case (kw_close l v)
  have "closed_pc (w_cpc v) \<or> \<not> closed_pc (w_cpc (cw s))"
    using kw_close(3) by (cases rule: close_step.cases) simp_all
  then show ?thesis using contract_of_close kw_close(2) by blast
next
  case (kw_loop l)
  show ?thesis by (rule loop_meets_contract [OF kw_loop(2)]) (rule inv_no_channel [OF assms(1) _ assms(2)])
qed (auto simp: contract_of_def cw_closed_def env_step_simps)

definition contract_start :: contract where
  "contract_start = \<lparr>ct_closed = False, ct_pc = LNone\<rparr>"

interpretation consumer_contract: forward_simulation "consumer_start s ctx p name cb calls" "consumer_step queue loopCtx"
    consumer_inv "\<lambda>w. \<not> cw_leaked w" contract_of contract_start contract_step
  for s ctx p name cb calls queue loopCtx
proof unfold_locales
  show "contract_of (consumer_start s ctx p name cb calls) = contract_start"
    by (simp add: contract_of_def contract_start_def cw_closed_def start_defs)
qed (erule (1) leak_before, metis step_meets_contract leak_before)

section \<open>Runs\<close>

lemma nonzero_delay [simp]: "initialConsumerDelay \<noteq> 0"
  by (simp add: backoff_consts)

lemmas run_simps = consumer_simps consumer_start_unfold machine_start_def newClient_def wake_open_def alive_def
  note_channel_def cw_closed_def consume_def sleepConsumerBackoff_def chan_closed_notified_def

definition clean_close :: "c_world_label list" where
  "clean_close = [KC CEnter, KC CStored, KC CDoneClosed, KC (CChanClosed None), KC (CConnClosed None)]"

text \<open>\<open>close\<close> runs to its end before the loop has looked at the client.\<close>

lemma closed_early_run:
  "\<exists>w. run (consumer_step queue loopCtx) (consumer_start s ctx p name cb calls) (KL KStart # clean_close) w \<and>
     cw_closed w \<and> \<not> cw_leaked w \<and>
     (\<exists>v. run (consumer_step queue loopCtx) w [KL KGoOn, KL KSeeNot, KL (KWoken WakeClientDone)] v \<and>
        \<not> cw_leaked v \<and> cw_loop v = KEnded)"
  by (simp add: clean_close_def run_simps)

text \<open>\<open>close\<close> runs to its end while the reconnect loop is inside \<open>amqp.Dial\<close>.\<close>

definition closed_dialing_run :: "c_world_label list" where
  "closed_dialing_run = [KL KStart, KR RStore0] @ clean_close"

definition consuming_again :: "amqp_delivery \<Rightarrow> c_world_label list" where
  "consuming_again d =
     [KR RDialOk, KR RInitStore0, KR ROpenOk, KR RNotify, KR RDeclareOk, KR RStore1, KR RReadyClosed, KR RWaitDone,
      KL KGoOn, KL KSeeReady, KL KConsumePass, KL (KConsumed None), KL KNotNil, KL KNotified, KL (KDelivered d), KL KAdd]"

lemma late_consumer:
  "\<exists>w. run (consumer_step queue loopCtx) (consumer_start s ctx p name cb calls) closed_dialing_run w \<and>
     w_cpc (cw w) = CClosed None \<and> w_rpc (cw w) = RDial \<and> \<not> cw_leaked w \<and> (\<forall>c. \<not> w_connOpen (cw w) c) \<and>
     (\<exists>v x n m. run (consumer_step queue loopCtx) w (consuming_again d) v \<and>
        w_rpc (cw v) = RDone \<and> cw_loop v = KHandling x n m d \<and> w_connOpen (cw v) 0)"
  by (simp add: closed_dialing_run_def consuming_again_def clean_close_def run_simps)

text \<open>The channel drops between the two reads of \<open>consume\<close>, and the new one fails to initialize.\<close>

definition ready_run :: "c_world_label list" where
  "ready_run =
     [KL KStart, KR RStore0, KR RDialOk, KR RInitStore0, KR ROpenOk, KR RNotify, KR RDeclareOk, KR RStore1, KR RReadyClosed]"

definition channel_lost :: "c_world_label list" where
  "channel_lost = [KChanDrop 1, KR RWaitChan, KR RInitStore0, KR ROpenOk, KR RNotify, KR RDeclareFail]"

lemma nil_consumer:
  "\<exists>u. run (consumer_step queue loopCtx) (consumer_start s ctx p name cb calls) (ready_run @ [KL KGoOn, KL KSeeReady]) u \<and>
     cw_loop u = KConsume initialConsumerDelay \<and> isReady (cw_clnt u) \<and> ch (cw_clnt u) = Some 1 \<and>
     (\<exists>t. run (consumer_step queue loopCtx) u (KL KConsumePass # channel_lost) t \<and>
        cw_loop t = KCall initialConsumerDelay \<and> ch (cw_clnt t) = None \<and> w_cpc (cw t) = CIdle)"
  by (simp add: channel_lost_def ready_run_def run_simps)

text \<open>A subscription, and a delivery on it.\<close>

lemma consuming_run:
  "\<exists>w. run (consumer_step queue loopCtx) (consumer_start s ctx p name cb calls)
       (ready_run @ [KL KGoOn, KL KSeeReady, KL KConsumePass, KL (KConsumed None), KL KNotNil, KL KNotified]) w \<and>
     cw_loop w = KSelect initialConsumerDelay 1 (Some 1) \<and> alive w 1 \<and> w_connOpen (cw w) 0 \<and> \<not> cw_leaked w"
  by (simp add: ready_run_def run_simps)

section \<open>Properties\<close>

text \<open>
  C22. One connection. However the reconnect loop, \<open>close\<close>, the consumer loop and the network
  interleave, a consumer client has at most one open connection, which is the one \<open>close\<close> would
  close, and at most one channel alive, the current \<open>ch\<close>; a loop that receives deliveries
  receives them from that channel.
\<close>

theorem one_live_connection:
  assumes "reach (consumer_start s ctx p name cb calls) (consumer_step queue loopCtx) w"
  shows "(\<forall>x. w_connOpen (cw w) x \<longrightarrow> conn (cw_clnt w) = Some x) \<and>
    (\<forall>n. alive w n \<longrightarrow> ch (cw_clnt w) = Some n) \<and>
    (\<forall>d n m dl t. cw_loop w = KSelect d n m \<and> loop_step queue loopCtx w (KDelivered dl) t \<longrightarrow> ch (cw_clnt w) = Some n)"
proof -
  have "conns_ok (cw w) (cw_of w)"
    using consumer.inv_reach [OF assms] by (simp add: consumer_inv_def)
  then show ?thesis by (auto simp: conns_ok_def lives_def alive_def loop_step_simps)
qed

theorem one_live_connection_witness:
  "\<exists>w :: nat consumer_world. alive w 1 \<and> ch (cw_clnt w) = Some 1 \<and> conn (cw_clnt w) = Some 0"
proof -
  obtain w where w: "run (consumer_step sample_store 0) (consumer_start demo_running 1 plain_item ''plain'' None (\<lambda>_. (0, demo_message)))
      (ready_run @ [KL KGoOn, KL KSeeReady, KL KConsumePass, KL (KConsumed None), KL KNotNil, KL KNotified]) w"
      "alive w 1" "w_connOpen (cw w) 0"
    using consuming_run [of sample_store 0 demo_running 1 plain_item "''plain''" None "\<lambda>_. (0, demo_message)"] by blast
  show ?thesis using one_live_connection [OF run_reach [OF w(1)]] w(2,3) by blast
qed

text \<open>
  C21. A closed consumer stops. Once \<open>close\<close> has returned, and unless a dial that it could not
  stop succeeds, the loop receives no delivery, and it takes at most eight more steps of its own
  and four for every timer that wins a \<open>select\<close> against the closed \<open>done\<close>; until it has ended or
  crashed it can take such a step.
\<close>

theorem closed_consumer_stops:
  assumes "reach (consumer_start s ctx p name cb calls) (consumer_step queue loopCtx) w" "cw_closed w"
    and "run (consumer_step queue loopCtx) w ls v" "\<not> cw_leaked v"
  shows "(\<forall>dl. KL (KDelivered dl) \<notin> set ls) \<and>
    length (filter own_label ls) \<le> 8 + 4 * length (filter timer_label ls) \<and>
    (cw_loop v = KEnded \<or> (\<exists>pan. cw_loop v = KCrashed pan) \<or>
     (\<exists>l t. loop_step queue loopCtx v l t \<and> \<not> timer_label (KL l)))"
proof -
  have "consumer_inv w" by (rule consumer.inv_reach [OF assms(1)])
  note run = closed_run [OF this assms(2-4)]
  then have "\<not> alive v n" for n using inv_no_channel assms(4) by blast
  moreover have "done_closed (cw_clnt v)" using run consumer_inv_done by blast
  ultimately have "cw_loop v = KEnded \<or> (\<exists>pan. cw_loop v = KCrashed pan) \<or>
      (\<exists>l t. loop_step queue loopCtx v l t \<and> \<not> timer_label (KL l))"
    using loop_can_step [of v queue loopCtx] run by blast
  then show ?thesis using run steps_left_8 [of "cw_loop w"] by auto
qed

theorem closed_consumer_stops_witness:
  "\<exists>(w :: nat consumer_world) v. cw_closed w \<and> cw_loop v = KEnded \<and>
     run (consumer_step sample_store 0) w [KL KGoOn, KL KSeeNot, KL (KWoken WakeClientDone)] v \<and>
     length (filter own_label [KL KGoOn, KL KSeeNot, KL (KWoken WakeClientDone)]) \<le> 8"
proof -
  obtain w v where w: "run (consumer_step sample_store 0) (consumer_start demo_running 1 plain_item ''plain'' None (\<lambda>_. (0, demo_message)))
      (KL KStart # clean_close) w" "cw_closed w"
      "run (consumer_step sample_store 0) w [KL KGoOn, KL KSeeNot, KL (KWoken WakeClientDone)] v" "\<not> cw_leaked v"
      "cw_loop v = KEnded"
    using closed_early_run [of sample_store 0 demo_running 1 plain_item "''plain''" None "\<lambda>_. (0, demo_message)"] by blast
  have "filter timer_label [KL KGoOn, KL KSeeNot, KL (KWoken WakeClientDone)] = []" by (simp add: timer_label_def)
  then show ?thesis
    using closed_consumer_stops [OF run_reach [OF w(1)] w(2-4)] w(2,3,5) by (metis add.right_neutral list.size(3) mult_0_right)
qed

text \<open>
  C6. The consumer keeps its contract. Every run of the machine, unless a dial succeeds after
  \<open>close\<close> has returned, is a run of the specification in which a consumer subscribes and receives
  only while it is open. In particular a delivery that is being handled after \<open>close\<close> was received
  before it returned.
\<close>

theorem consumer_refines_contract:
  assumes "reach (consumer_start s ctx p name cb calls) (consumer_step queue loopCtx) w"
    and "run (consumer_step queue loopCtx) w ls v" "\<not> cw_leaked v"
  shows "reach contract_start contract_step (contract_of w) \<and>
    (\<exists>cs. run contract_step (contract_of w) cs (contract_of v)) \<and>
    (\<forall>d. cw_closed w \<and> busy_with (phase (cw_loop v)) = Some d \<longrightarrow> busy_with (phase (cw_loop w)) = Some d)"
proof -
  have leak: "\<not> cw_leaked w" by (rule consumer_contract.good_run [OF assms(2,3)])
  obtain cs where cs: "run contract_step (contract_of w) cs (contract_of v)"
    using consumer_contract.simulates_run [OF consumer.inv_reach [OF assms(1)] assms(2,3)] by blast
  then have "busy_with (phase (cw_loop w)) = Some d" if "cw_closed w" "busy_with (phase (cw_loop v)) = Some d" for d
    using contract_busy [OF cs] that by simp
  then show ?thesis
    using cs consumer_contract.simulates_reach [OF assms(1) leak] by blast
qed

theorem consumer_refines_contract_witness:
  "reach contract_start contract_step \<lparr>ct_closed = False, ct_pc = LSelect\<rparr>"
proof -
  obtain w where w: "run (consumer_step sample_store 0) (consumer_start demo_running 1 plain_item ''plain'' None (\<lambda>_. (0, demo_message)))
      (ready_run @ [KL KGoOn, KL KSeeReady, KL KConsumePass, KL (KConsumed None), KL KNotNil, KL KNotified]) w"
      "cw_loop w = KSelect initialConsumerDelay 1 (Some 1)" "\<not> cw_leaked w" "w_cpc (cw w) = CIdle"
    by (auto simp: ready_run_def run_simps)
  have "run (consumer_step sample_store 0) w [] w" by simp
  from consumer_refines_contract [OF run_reach [OF w(1)] this w(3)] show ?thesis
    by (simp add: contract_of_def w(2,4) cw_closed_def)
qed

text \<open>
  C32. A closed client goes on consuming. For every consumer and every delivery there is a run in
  which \<open>close\<close> has returned nil, with no connection open, while the reconnect loop is inside
  \<open>amqp.Dial\<close>; the dial then succeeds, and the loop installs the connection, declares the queue and
  marks the client ready, before it sees \<open>done\<close> and ends. The consumer loop (it does not look at
  \<open>done\<close> unless the client is not ready) subscribes after that, receives the delivery and runs the
  handler, on a connection that nobody closes.
\<close>

theorem closed_client_goes_on_consuming:
  "\<exists>w ls v x n m. reach (consumer_start s ctx p name cb calls) (consumer_step queue loopCtx) w \<and>
     w_cpc (cw w) = CClosed None \<and> w_rpc (cw w) = RDial \<and> \<not> cw_leaked w \<and> (\<forall>c. \<not> w_connOpen (cw w) c) \<and>
     run (consumer_step queue loopCtx) w (KR RDialOk # ls) v \<and>
     KL (KConsumed None) \<in> set ls \<and> KL (KDelivered d) \<in> set ls \<and>
     cw_loop v = KHandling x n m d \<and> w_rpc (cw v) = RDone \<and> conn (cw_clnt v) = Some 0 \<and> w_connOpen (cw v) 0"
proof -
  obtain w v x n m where w: "run (consumer_step queue loopCtx) (consumer_start s ctx p name cb calls) closed_dialing_run w"
      "w_cpc (cw w) = CClosed None" "w_rpc (cw w) = RDial" "\<not> cw_leaked w" "\<forall>c. \<not> w_connOpen (cw w) c"
      "run (consumer_step queue loopCtx) w (consuming_again d) v"
      "w_rpc (cw v) = RDone" "cw_loop v = KHandling x n m d" "w_connOpen (cw v) 0"
    using late_consumer [of queue loopCtx s ctx p name cb calls d] by blast
  have "consumer_inv v" using consumer.inv_reach [OF reach_run [OF run_reach [OF w(1)] w(6)]] .
  then have "conn (cw_clnt v) = Some 0" using w(9) by (auto simp: consumer_inv_def conns_ok_def)
  then show ?thesis
    using w run_reach [OF w(1)]
    by (intro exI [of _ w] exI [of _ "tl (consuming_again d)"] exI [of _ v] exI [of _ x] exI [of _ n] exI [of _ m])
      (simp add: consuming_again_def)
qed

text \<open>
  C33. \<open>consume\<close> can panic. It checks \<open>isReady\<close> and calls a method of \<open>ch\<close> later. For every consumer
  there is a run in which the check succeeds, with the channel there; before the consumer loop
  moves again the channel drops and the new one cannot be declared, so that \<open>ch\<close> is nil; and then,
  whatever the broker would answer, the call panics in the goroutine of the consumer loop, where
  nothing recovers. No \<open>close\<close> is involved.
\<close>

theorem consume_can_panic_on_nil_channel:
  "\<exists>u x ls t. reach (consumer_start s ctx p name cb calls) (consumer_step queue loopCtx) u \<and>
     cw_loop u = KConsume x \<and> isReady (cw_clnt u) \<and> ch (cw_clnt u) \<noteq> None \<and>
     run (consumer_step queue loopCtx) u (KL KConsumePass # ls) t \<and> list_all (\<lambda>l. \<not> loop_label l) ls \<and>
     ch (cw_clnt t) = None \<and> w_cpc (cw t) = CIdle \<and>
     (\<forall>answer. {v. loop_step queue loopCtx t (KConsumed answer) v} = {at_k t (KCrashed NilChannel)})"
proof -
  obtain u t where u: "run (consumer_step queue loopCtx) (consumer_start s ctx p name cb calls) (ready_run @ [KL KGoOn, KL KSeeReady]) u"
      "cw_loop u = KConsume initialConsumerDelay" "isReady (cw_clnt u)" "ch (cw_clnt u) = Some 1"
      "run (consumer_step queue loopCtx) u (KL KConsumePass # channel_lost) t"
      "cw_loop t = KCall initialConsumerDelay" "ch (cw_clnt t) = None" "w_cpc (cw t) = CIdle"
    using nil_consumer [of queue loopCtx s ctx p name cb calls] by blast
  have "list_all (\<lambda>l. \<not> loop_label l) channel_lost" by (simp add: channel_lost_def loop_label_def)
  moreover have "{v. loop_step queue loopCtx t (KConsumed answer) v} = {at_k t (KCrashed NilChannel)}" for answer
    using u(6,7) by (auto simp: loop_step_simps consume_def)
  ultimately show ?thesis using u run_reach [OF u(1)] by (metis option.distinct(1))
qed

end
