(* ===== verification/Fleet.thy ===== *)
theory Fleet
  imports ConsumerRuns
begin

text \<open>
  \<open>Shutdown\<close> against the machines of all consumers: every consumer client has its reconnect loop,
  its \<open>close\<close> and its consumer loop (ConsumerMachine), and \<open>Shutdown\<close> closes them one after the
  other while all of them go on. A \<open>close\<close> runs in its single steps, the loops never look at
  \<open>closeOnce\<close>, and that a closed client hands out no deliveries is a consequence. The receive from the
  channel of deliveries and the \<open>inflight.Add(1)\<close> after it are two steps. The clients of publishers,
  which \<open>Shutdown\<close> closes before, are those of Machine and take no part.
\<close>

section \<open>State\<close>

text \<open>
  The list of consumers still to close, whose head \<open>closeOneClient\<close> is working on: with \<open>FTurn\<close> it
  is about to look at the context, with \<open>FClose\<close> it is in \<open>clnt.close\<close>, and the flag says whether
  that call is the one that runs the body of \<open>closeOnce\<close> (another caller waits, and gets nil).
\<close>

type_synonym consumer_entry = "queue_name \<times> nat \<times> string \<times> addr"

datatype fleet_pc =
    FIdle
  | FTurn "consumer_entry list" "go_error option"
  | FClose "consumer_entry list" "go_error option" bool
  | FWaiting "go_error option" bool
  | FLast "go_error option" "go_error option"
  | FReturned "go_error option"

record 'c fleet =
  fl_consumer :: "addr \<Rightarrow> 'c consumer_world"
  fl_inflight :: int
  fl_down :: fleet_pc
  fl_ctxErr :: "ctx_error option"
  fl_uncounted :: bool

definition fleet_start :: "(addr \<Rightarrow> 'c consumer_world) \<Rightarrow> 'c fleet" where
  "fleet_start cons = \<lparr>fl_consumer = cons, fl_inflight = 0, fl_down = FIdle, fl_ctxErr = None, fl_uncounted = False\<rparr>"

section \<open>Steps\<close>

text \<open>What a step of a consumer does to \<open>inflight\<close>.\<close>

fun inflight_change :: "c_world_label \<Rightarrow> int" where
  "inflight_change (KL KAdd) = 1"
| "inflight_change (KL (KHandled _)) = -1"
| "inflight_change _ = 0"

text \<open>The two halves of \<open>closeOneClient\<close>, before and after \<open>clnt.close\<close>.\<close>

definition turn_error :: "ctx_error option \<Rightarrow> go_error option \<Rightarrow> go_error option" where
  "turn_error ctxErr firstErr =
     (if firstErr = None then map_option (\<lambda>e. Errorf ''%w'' [] [CtxErr e]) ctxErr else firstErr)"

definition closed_error :: "queue_name \<Rightarrow> nat \<Rightarrow> string \<Rightarrow> go_error option \<Rightarrow> go_error option \<Rightarrow> go_error option" where
  "closed_error name idx role firstErr closeErr =
     (case (closeErr, firstErr) of
        (Some err, None) \<Rightarrow> Some (Errorf ''error closing %s %s[%d]: %w'' [role, name, append_int (int idx) 1] [err])
      | _ \<Rightarrow> firstErr)"

datatype fleet_label =
    FConsumer addr c_world_label | FSnapshot | FTurned | FEntered | FClosed | FAllClosed | FDrained
  | FWaited "go_error option" | FReturn | FCtx ctx_error

abbreviation set_consumer :: "'c fleet \<Rightarrow> addr \<Rightarrow> 'c consumer_world \<Rightarrow> 'c fleet" where
  "set_consumer w a v \<equiv> w\<lparr>fl_consumer := (fl_consumer w)(a := v)\<rparr>"

definition got_uncounted :: "'c consumer_world \<Rightarrow> bool" where
  "got_uncounted s \<longleftrightarrow> (case phase (cw_loop s) of LGot d \<Rightarrow> True | _ \<Rightarrow> False)"

text \<open>
  A consumer steps by itself, but enters \<open>close\<close> only when its loop calls it; \<open>FEntered\<close> is \<open>Shutdown\<close>
  calling it first.
\<close>

inductive fleet_step ::
  "'c queueStore \<Rightarrow> 'c \<Rightarrow> consumer_entry list \<Rightarrow> 'c fleet \<Rightarrow> fleet_label \<Rightarrow> 'c fleet \<Rightarrow> bool"
  for queue loopCtx order where
  f_consumer:
  "a \<in> order_addr ` set order \<Longrightarrow> consumer_step queue loopCtx (fl_consumer w a) l v \<Longrightarrow>
     l = KC CEnter \<longrightarrow> cw_loop (fl_consumer w a) = KClosing \<Longrightarrow>
     fleet_step queue loopCtx order w (FConsumer a l)
       ((set_consumer w a v)\<lparr>fl_inflight := fl_inflight w + inflight_change l\<rparr>)"
| f_snapshot:
  "fl_down w = FIdle \<Longrightarrow> fleet_step queue loopCtx order w FSnapshot (w\<lparr>fl_down := FTurn order None\<rparr>)"
| f_turned:
  "fl_down w = FTurn (x # rest) fe \<Longrightarrow>
     fleet_step queue loopCtx order w FTurned (w\<lparr>fl_down := FClose (x # rest) (turn_error (fl_ctxErr w) fe) False\<rparr>)"
| f_entered:
  "fl_down w = FClose ((name, i, role, a) # rest) fe False \<Longrightarrow>
     consumer_step queue loopCtx (fl_consumer w a) (KC CEnter) v \<Longrightarrow>
     fleet_step queue loopCtx order w FEntered
       ((set_consumer w a v)\<lparr>fl_down := FClose ((name, i, role, a) # rest) fe True\<rparr>)"
| f_closed:
  "fl_down w = FClose ((name, i, role, a) # rest) fe mine \<Longrightarrow> w_cpc (cw (fl_consumer w a)) = CClosed r \<Longrightarrow>
     fleet_step queue loopCtx order w FClosed
       (w\<lparr>fl_down := FTurn rest (closed_error name i role fe (if mine then r else None))\<rparr>)"
| f_all_closed:
  "fl_down w = FTurn [] fe \<Longrightarrow> fleet_step queue loopCtx order w FAllClosed (w\<lparr>fl_down := FWaiting fe False\<rparr>)"
| f_drained:
  "fl_down w = FWaiting fe False \<Longrightarrow> fl_inflight w = 0 \<Longrightarrow>
     fleet_step queue loopCtx order w FDrained
       (w\<lparr>fl_down := FWaiting fe True,
          fl_uncounted := list_ex (\<lambda>x. got_uncounted (fl_consumer w (order_addr x))) order\<rparr>)"
| f_waited:
  "fl_down w = FWaiting fe drained \<Longrightarrow> r \<in> set (waitInflight (if drained then 0 else 1) (fl_ctxErr w)) \<Longrightarrow>
     fleet_step queue loopCtx order w (FWaited r) (w\<lparr>fl_down := FLast fe r\<rparr>)"
| f_returned:
  "fl_down w = FLast fe r \<Longrightarrow>
     fleet_step queue loopCtx order w FReturn (w\<lparr>fl_down := FReturned (Shutdown_result (fl_ctxErr w) fe r)\<rparr>)"
| f_ctx:
  "fl_ctxErr w = None \<Longrightarrow> fleet_step queue loopCtx order w (FCtx c) (w\<lparr>fl_ctxErr := Some c\<rparr>)"

inductive_simps fleet_step_simps:
  "fleet_step queue loopCtx order w (FConsumer a l) v" "fleet_step queue loopCtx order w FSnapshot v"
  "fleet_step queue loopCtx order w FTurned v" "fleet_step queue loopCtx order w FEntered v"
  "fleet_step queue loopCtx order w FClosed v" "fleet_step queue loopCtx order w FAllClosed v"
  "fleet_step queue loopCtx order w FDrained v" "fleet_step queue loopCtx order w (FWaited r) v"
  "fleet_step queue loopCtx order w FReturn v"

text \<open>The two halves make the sequential \<open>closeOneClient\<close>.\<close>

lemma closeOneClient_halves:
  "snd (closeOneClient env name i role a fe s) =
     closed_error name i role (turn_error (se_ctxAt env a) fe) (close_err (se_answers env) s a)"
  using close_at_simps(4) [of "se_answers env" a s]
  by (auto simp: closeOneClient_def closed_error_def turn_error_def Let_def split: prod.splits option.splits)

section \<open>What every step keeps\<close>

fun handles :: "loop_pc \<Rightarrow> bool" where
  "handles (LHandling d) = True"
| "handles _ = False"

lemma card_moves:
  "finite H \<Longrightarrow> int (card (if b then insert a H else H - {a})) =
     int (card H) + ((if b then 1 else 0) - (if a \<in> H then 1 else 0))"
proof (cases "a \<in> H")
  case True
  moreover assume "finite H"
  ultimately have "0 < card H" by (auto simp: card_gt_0_iff)
  then show ?thesis using True by (simp add: insert_absorb card_Diff_singleton of_nat_diff)
qed simp

definition handling_now :: "'c fleet \<Rightarrow> addr set" where
  "handling_now w = {a. handles (phase (cw_loop (fl_consumer w a)))}"

definition closed_but :: "consumer_entry list \<Rightarrow> 'c fleet \<Rightarrow> addr set \<Rightarrow> bool" where
  "closed_but order w except \<longleftrightarrow> (\<forall>a \<in> order_addr ` set order - except. cw_closed (fl_consumer w a))"

definition all_idle :: "consumer_entry list \<Rightarrow> 'c fleet \<Rightarrow> bool" where
  "all_idle order w \<longleftrightarrow> (\<forall>a \<in> order_addr ` set order. busy_with (phase (cw_loop (fl_consumer w a))) = None)"

definition some_leaked :: "consumer_entry list \<Rightarrow> 'c fleet \<Rightarrow> bool" where
  "some_leaked order w \<longleftrightarrow> (\<exists>a \<in> order_addr ` set order. cw_leaked (fl_consumer w a))"

abbreviation settled :: "consumer_entry list \<Rightarrow> 'c fleet \<Rightarrow> bool" where
  "settled order w \<equiv> fl_uncounted w \<or> some_leaked order w \<or> all_idle order w"

fun fleet_down_ok :: "consumer_entry list \<Rightarrow> 'c fleet \<Rightarrow> fleet_pc \<Rightarrow> bool" where
  "fleet_down_ok order w FIdle \<longleftrightarrow> True"
| "fleet_down_ok order w (FTurn rest fe) \<longleftrightarrow> set rest \<subseteq> set order \<and> closed_but order w (order_addr ` set rest)"
| "fleet_down_ok order w (FClose rest fe mine) \<longleftrightarrow> set rest \<subseteq> set order \<and> closed_but order w (order_addr ` set rest)"
| "fleet_down_ok order w (FWaiting fe drained) \<longleftrightarrow> closed_but order w {} \<and> (drained \<longrightarrow> settled order w)"
| "fleet_down_ok order w (FLast fe r) \<longleftrightarrow> closed_but order w {} \<and> (r = None \<longrightarrow> settled order w)"
| "fleet_down_ok order w (FReturned r) \<longleftrightarrow> closed_but order w {} \<and> (r = None \<longrightarrow> settled order w)"

definition fleet_inv :: "consumer_entry list \<Rightarrow> 'c fleet \<Rightarrow> bool" where
  "fleet_inv order w \<longleftrightarrow>
     (\<forall>a. consumer_inv (fl_consumer w a)) \<and>
     handling_now w \<subseteq> order_addr ` set order \<and>
     fl_inflight w = int (card (handling_now w)) \<and> fleet_down_ok order w (fl_down w)"

lemma handling_now_update:
  "handling_now (set_consumer w a v) =
     (if handles (phase (cw_loop v)) then insert a (handling_now w) else handling_now w - {a})"
  by (auto simp: handling_now_def)

lemma fleet_frames [simp]:
  "handling_now (w\<lparr>fl_down := pc\<rparr>) = handling_now w" "handling_now (w\<lparr>fl_inflight := n\<rparr>) = handling_now w"
  "handling_now (w\<lparr>fl_ctxErr := c\<rparr>) = handling_now w" "handling_now (w\<lparr>fl_uncounted := u\<rparr>) = handling_now w"
  "closed_but order (w\<lparr>fl_down := pc\<rparr>) x = closed_but order w x" "closed_but order (w\<lparr>fl_inflight := n\<rparr>) x = closed_but order w x"
  "closed_but order (w\<lparr>fl_ctxErr := c\<rparr>) x = closed_but order w x" "closed_but order (w\<lparr>fl_uncounted := u\<rparr>) x = closed_but order w x"
  "all_idle order (w\<lparr>fl_down := pc\<rparr>) = all_idle order w" "all_idle order (w\<lparr>fl_inflight := n\<rparr>) = all_idle order w"
  "all_idle order (w\<lparr>fl_ctxErr := c\<rparr>) = all_idle order w" "all_idle order (w\<lparr>fl_uncounted := u\<rparr>) = all_idle order w"
  "some_leaked order (w\<lparr>fl_down := pc\<rparr>) = some_leaked order w" "some_leaked order (w\<lparr>fl_inflight := n\<rparr>) = some_leaked order w"
  "some_leaked order (w\<lparr>fl_ctxErr := c\<rparr>) = some_leaked order w" "some_leaked order (w\<lparr>fl_uncounted := u\<rparr>) = some_leaked order w"
  by (simp_all add: handling_now_def closed_but_def all_idle_def some_leaked_def)

lemma fl_consumer_set: "fl_consumer (set_consumer w a v) b = (if b = a then v else fl_consumer w b)"
  by simp

lemma fleet_down_ok_mono:
  assumes "fleet_down_ok order w pc" "fl_uncounted w = fl_uncounted v"
    and "\<And>x. closed_but order w x \<Longrightarrow> closed_but order v x"
    and "closed_but order w {} \<Longrightarrow> settled order w \<Longrightarrow> settled order v"
  shows "fleet_down_ok order v pc"
  using assms by (cases pc) auto

lemma fleet_down_ok_inflight: "fleet_down_ok order (w\<lparr>fl_inflight := n\<rparr>) pc = fleet_down_ok order w pc"
  by (cases pc) simp_all

lemma inflight_change_handles:
  "consumer_step queue loopCtx s l t \<Longrightarrow>
     inflight_change l = (if handles (phase (cw_loop t)) then 1 else 0) - (if handles (phase (cw_loop s)) then 1 else 0)"
  by (erule consumer_stepE) (auto elim!: loop_stepE split: option.splits if_splits)

text \<open>A closed consumer that is idle stays idle, unless a dial succeeds after its close.\<close>

lemma closed_idle:
  assumes "consumer_inv s" "consumer_step queue loopCtx s l t" "cw_closed s" "busy_with (phase (cw_loop s)) = None" "\<not> cw_leaked t"
  shows "busy_with (phase (cw_loop t)) = None"
proof -
  have "contract_of t = contract_of s \<or> (\<exists>c. contract_step (contract_of s) c (contract_of t))"
    by (rule step_meets_contract [OF assms(1) leak_before [OF assms(2,5)] assms(2)])
  moreover have "busy_with (ct_pc (contract_of s)) = Some d"
    if "contract_step (contract_of s) c (contract_of t)" "busy_with (ct_pc (contract_of t)) = Some d" for c d
    by (rule contract_busy_step [OF that(1) _ that(2)]) (simp add: assms(3))
  ultimately show ?thesis using assms(4) by (cases "busy_with (phase (cw_loop t))") (auto simp: contract_of_def)
qed

lemma leaked_stays: "consumer_step queue loopCtx s l t \<Longrightarrow> cw_leaked s \<Longrightarrow> cw_leaked t"
  using leak_before [of queue loopCtx s l t] by argo

lemma consumer_moves:
  assumes inv: "fleet_inv order w" and a: "a \<in> order_addr ` set order"
    and step: "consumer_step queue loopCtx (fl_consumer w a) l v"
  shows "fleet_inv order ((set_consumer w a v)\<lparr>fl_inflight := fl_inflight w + inflight_change l\<rparr>)"
proof -
  let ?v = "set_consumer w a v"
  have ci: "consumer_inv (fl_consumer w a)" using inv by (simp add: fleet_inv_def)
  have sub: "handling_now w \<subseteq> order_addr ` set order" using inv by (simp add: fleet_inv_def)
  have "int (card (handling_now ?v)) = int (card (handling_now w)) + inflight_change l"
    using card_moves [OF finite_subset [OF sub], of "handles (phase (cw_loop v))" a]
    unfolding handling_now_update inflight_change_handles [OF step] by (simp add: handling_now_def)
  moreover have "fleet_down_ok order ?v (fl_down w)"
  proof (rule fleet_down_ok_mono [of order w])
    show "fleet_down_ok order w (fl_down w)" using inv by (simp add: fleet_inv_def)
    show "closed_but order ?v x" if "closed_but order w x" for x
      using that closed_stays [OF step] by (auto simp: closed_but_def)
    show "settled order ?v" if closed: "closed_but order w {}" and s: "settled order w"
    proof (cases "some_leaked order w \<or> cw_leaked v")
      case True
      then have "some_leaked order ?v" using a leaked_stays [OF step] unfolding some_leaked_def by (metis fl_consumer_set)
      then show ?thesis by simp
    next
      case False
      have "all_idle order ?v" if idle: "all_idle order w"
      proof -
        have "cw_closed (fl_consumer w a)" using a closed unfolding closed_but_def by blast
        moreover have "busy_with (phase (cw_loop (fl_consumer w a))) = None"
          using a idle unfolding all_idle_def by (rule bspec [rotated])
        ultimately have "busy_with (phase (cw_loop v)) = None" using closed_idle [OF ci step] False by blast
        then show ?thesis using idle unfolding all_idle_def fl_consumer_set by simp
      qed
      then show ?thesis using s False by auto
    qed
  qed simp
  moreover have "handling_now ?v \<subseteq> order_addr ` set order" using sub a by (auto simp: handling_now_update)
  ultimately show ?thesis
    using inv consumer_inv_step [OF ci step] by (simp add: fleet_inv_def fleet_down_ok_inflight)
qed

lemma fleet_moves:
  "fleet_inv order w \<Longrightarrow> fleet_down_ok order w pc \<Longrightarrow> fleet_inv order (w\<lparr>fl_down := pc\<rparr>)"
proof -
  assume inv: "fleet_inv order w" and "fleet_down_ok order w pc"
  then have "fleet_down_ok order (w\<lparr>fl_down := pc\<rparr>) pc" by (cases pc) simp_all
  then show ?thesis using inv by (simp add: fleet_inv_def)
qed

lemma uncounted_or_idle:
  assumes "handling_now w = {}"
  shows "list_ex (\<lambda>x. got_uncounted (fl_consumer w (order_addr x))) order \<or> all_idle order w"
proof -
  have "busy_with p = None" if "\<not> handles p" "\<not> (case p of LGot d \<Rightarrow> True | _ \<Rightarrow> False)" for p
    using that by (cases p) simp_all
  then show ?thesis using assms by (force simp: list_ex_iff all_idle_def got_uncounted_def handling_now_def)
qed

lemma fleet_inv_step:
  assumes inv: "fleet_inv order w" and step: "fleet_step queue loopCtx order w l v"
  shows "fleet_inv order v"
  using step
proof (cases rule: fleet_step.cases)
  case (f_consumer a l u)
  then show ?thesis using consumer_moves [OF inv] by simp
next
  case f_snapshot
  then show ?thesis by (simp add: fleet_moves [OF inv] closed_but_def)
next
  case (f_turned x rest fe)
  then show ?thesis using inv by (auto intro!: fleet_moves [OF inv] simp: fleet_inv_def)
next
  case (f_entered name i role a rest fe u)
  let ?x = "(name, i, role, a)"
  have "?x \<in> set order" using inv f_entered(3) by (simp add: fleet_inv_def)
  then have "a \<in> order_addr ` set order" by force
  from consumer_moves [OF inv this f_entered(4)]
  have inv': "fleet_inv order (set_consumer w a u)" by simp
  have "fleet_down_ok order (set_consumer w a u) (FClose (?x # rest) fe True)"
    using inv' f_entered(3) by (simp add: fleet_inv_def)
  from fleet_moves [OF inv' this] show ?thesis using f_entered(2) by simp
next
  case (f_closed name i role a rest fe mine r)
  have "closed_but order w (order_addr ` set ((name, i, role, a) # rest))" "set rest \<subseteq> set order"
    using inv f_closed(3) by (simp_all add: fleet_inv_def)
  moreover have "cw_closed (fl_consumer w a)" by (simp add: cw_closed_def f_closed(4))
  ultimately have "closed_but order w (order_addr ` set rest)" "set rest \<subseteq> set order" by (auto simp: closed_but_def)
  then show ?thesis using f_closed(2) by (simp add: fleet_moves [OF inv])
next
  case (f_all_closed fe)
  then show ?thesis using inv by (auto intro!: fleet_moves [OF inv] simp: fleet_inv_def)
next
  case (f_drained fe)
  have sub: "handling_now w \<subseteq> order_addr ` set order" using inv by (simp add: fleet_inv_def)
  have "handling_now w = {}"
    using f_drained(4) inv finite_subset [OF sub] by (simp add: fleet_inv_def)
  from uncounted_or_idle [OF this, of order] show ?thesis
    using f_drained inv by (auto simp: fleet_inv_def)
next
  case (f_waited fe drained r)
  have "drained \<or> r \<noteq> None"
    using f_waited by (auto simp: waitInflight_def set_select split: option.splits)
  then show ?thesis using f_waited inv by (auto intro!: fleet_moves [OF inv] simp: fleet_inv_def)
next
  case (f_returned fe r)
  have "Shutdown_result (fl_ctxErr w) fe r = None \<Longrightarrow> r = None"
    by (auto simp: Shutdown_result_def Let_def split: option.splits if_splits)
  then show ?thesis using f_returned inv by (auto intro!: fleet_moves [OF inv] simp: fleet_inv_def)
next
  case (f_ctx c)
  then show ?thesis using inv by (cases "fl_down w") (simp_all add: fleet_inv_def)
qed

section \<open>Every consumer by itself\<close>

text \<open>Each client as \<open>addConsumerClient\<close> makes it.\<close>

definition fresh_fleet :: "(addr \<Rightarrow> 'c consumer_world) \<Rightarrow> bool" where
  "fresh_fleet cons \<longleftrightarrow> (\<forall>a. \<exists>s ctx p name cb calls. cons a = consumer_start s ctx p name cb calls)"

lemma consumer_start_loop: "cw_loop (consumer_start s ctx p name cb calls) = KNew"
  by (simp add: consumer_start_unfold)

lemma fleet_inv_start:
  assumes "fresh_fleet cons"
  shows "fleet_inv order (fleet_start cons)"
proof -
  have "consumer_inv (cons a) \<and> cw_loop (cons a) = KNew" for a
    using assms consumer_inv_start consumer_start_loop unfolding fresh_fleet_def by metis
  then show ?thesis by (simp add: fleet_inv_def fleet_start_def handling_now_def)
qed

interpretation fleet: invariant_system "fleet_start cons" "fleet_step queue loopCtx order"
    "\<lambda>w. fresh_fleet cons \<longrightarrow> fleet_inv order w"
  for cons queue loopCtx order
  by unfold_locales (auto intro: fleet_inv_start fleet_inv_step)

text \<open>What the fleet does at one address is a run of that consumer's machine.\<close>

lemma fleet_projects_step:
  "fleet_step queue loopCtx order w l v \<Longrightarrow>
     fl_consumer v a = fl_consumer w a \<or> (\<exists>k. consumer_step queue loopCtx (fl_consumer w a) k (fl_consumer v a))"
  by (cases rule: fleet_step.cases, assumption) auto

lemma fleet_projects:
  "reach (fleet_start cons) (fleet_step queue loopCtx order) w \<Longrightarrow>
     reach (cons a) (consumer_step queue loopCtx) (fl_consumer w a)"
proof (induction rule: reach.induct)
  case reach_start
  show ?case by (simp add: fleet_start_def reach.reach_start)
next
  case (reach_step s e t)
  then show ?case using fleet_projects_step [OF reach_step(2), of a] by (auto intro: reach.reach_step)
qed

fun steps_at :: "addr \<Rightarrow> fleet_label list \<Rightarrow> c_world_label list" where
  "steps_at a [] = []"
| "steps_at a (FConsumer b k # ls) = (if a = b then k # steps_at a ls else steps_at a ls)"
| "steps_at a (l # ls) = steps_at a ls"

text \<open>Once \<open>Shutdown\<close> has returned, only the consumers and the context move.\<close>

lemma fleet_returned_step:
  assumes "fleet_step queue loopCtx order w l v" "fl_down w = FReturned r"
  shows "fl_down v = FReturned r \<and> fl_uncounted v = fl_uncounted w \<and>
    (steps_at a [l] = [] \<and> fl_consumer v a = fl_consumer w a \<or>
     (\<exists>k. steps_at a [l] = [k] \<and> consumer_step queue loopCtx (fl_consumer w a) k (fl_consumer v a)))"
  using assms by (cases rule: fleet_step.cases) auto

lemma steps_at_Cons: "steps_at a (l # ls) = steps_at a [l] @ steps_at a ls"
  by (cases l) simp_all

lemma fleet_returned_run:
  "run (fleet_step queue loopCtx order) w ls v \<Longrightarrow> fl_down w = FReturned r \<Longrightarrow>
     fl_down v = FReturned r \<and> fl_uncounted v = fl_uncounted w \<and>
     run (consumer_step queue loopCtx) (fl_consumer w a) (steps_at a ls) (fl_consumer v a)"
proof (induction ls arbitrary: w)
  case (Cons l ls)
  then obtain u where u: "fleet_step queue loopCtx order w l u" "run (fleet_step queue loopCtx order) u ls v" by auto
  note first = fleet_returned_step [OF u(1) Cons.prems(2), of a]
  have rest: "fl_down v = FReturned r \<and> fl_uncounted v = fl_uncounted u \<and>
      run (consumer_step queue loopCtx) (fl_consumer u a) (steps_at a ls) (fl_consumer v a)"
    using Cons.IH [OF u(2)] first by blast
  show ?case
  proof (cases "steps_at a [l] = []")
    case True
    then show ?thesis using first rest steps_at_Cons [of a l ls] by simp
  next
    case False
    then obtain k where "steps_at a [l] = [k]" "consumer_step queue loopCtx (fl_consumer w a) k (fl_consumer u a)"
      using first by auto
    then show ?thesis using first rest steps_at_Cons [of a l ls] by auto
  qed
qed simp

section \<open>A shutdown while a delivery is not counted\<close>

lemma closes_clean:
  assumes "w_cpc (cw s) = CIdle"
  shows "\<exists>t u. consumer_step queue loopCtx s (KC CEnter) t \<and>
    run (consumer_step queue loopCtx) t (tl clean_close) u \<and>
    w_cpc (cw u) = CClosed None \<and> cw_loop u = cw_loop s \<and> cw_leaked u = cw_leaked s"
  using assms
  by (cases "ch (cw_clnt s)"; cases "conn (cw_clnt s)")
    (simp_all add: clean_close_def consumer_simps close_chan_error_def close_conn_error_def)

text \<open>The run of one consumer is a run of the fleet.\<close>

lemma fleet_lifts:
  "run (consumer_step queue loopCtx) (fl_consumer w a) ls v \<Longrightarrow> a \<in> order_addr ` set order \<Longrightarrow> KC CEnter \<notin> set ls \<Longrightarrow>
     \<exists>n. run (fleet_step queue loopCtx order) w (map (FConsumer a) ls) ((set_consumer w a v)\<lparr>fl_inflight := n\<rparr>) \<and>
       n = fl_inflight w + sum_list (map inflight_change ls)"
proof (induction ls arbitrary: w)
  case Nil
  then have "fl_consumer w a = v" by simp
  then have "w = (set_consumer w a v)\<lparr>fl_inflight := fl_inflight w\<rparr>" by (metis fun_upd_triv fleet.surjective fleet.update_convs(1,2))
  then have "run (fleet_step queue loopCtx order) w (map (FConsumer a) []) ((set_consumer w a v)\<lparr>fl_inflight := fl_inflight w\<rparr>)"
    by (simp only: run.simps list.map)
  then show ?case by (intro exI [of _ "fl_inflight w"] conjI) (assumption, simp)
next
  case (Cons l ls)
  then obtain u where u: "consumer_step queue loopCtx (fl_consumer w a) l u" "run (consumer_step queue loopCtx) u ls v" by auto
  let ?w = "(set_consumer w a u)\<lparr>fl_inflight := fl_inflight w + inflight_change l\<rparr>"
  have "fleet_step queue loopCtx order w (FConsumer a l) ?w"
    by (rule f_consumer [OF Cons.prems(2) u(1)]) (use Cons.prems(3) in auto)
  moreover have later: "run (consumer_step queue loopCtx) (fl_consumer ?w a) ls v" "KC CEnter \<notin> set ls"
    using u(2) Cons.prems(3) by simp_all
  obtain n where n: "run (fleet_step queue loopCtx order) ?w (map (FConsumer a) ls) ((set_consumer ?w a v)\<lparr>fl_inflight := n\<rparr>)"
      "n = fl_inflight ?w + sum_list (map inflight_change ls)"
    using Cons.IH [OF later(1) Cons.prems(2) later(2)] by blast
  moreover have "(set_consumer ?w a v)\<lparr>fl_inflight := n\<rparr> = (set_consumer w a v)\<lparr>fl_inflight := n\<rparr>"
    by (simp add: fun_upd_def cong: if_cong)
  ultimately have "run (fleet_step queue loopCtx order) w (map (FConsumer a) (l # ls)) ((set_consumer w a v)\<lparr>fl_inflight := n\<rparr>)"
    using n(1) unfolding list.map run.simps by metis
  moreover have "n = fl_inflight w + sum_list (map inflight_change (l # ls))" using n(2) by simp
  ultimately show ?case by blast
qed

text \<open>\<open>closeOneClient\<close> for one consumer, and then for all that are left, with the labels of such steps.\<close>

fun closing_label :: "fleet_label \<Rightarrow> bool" where
  "closing_label (FConsumer a (KC l)) = True"
| "closing_label FTurned = True"
| "closing_label FEntered = True"
| "closing_label FClosed = True"
| "closing_label _ = False"

lemma turn_closes:
  assumes "fl_down w = FTurn ((name, i, role, a) # rest) None" "fl_ctxErr w = None" "w_cpc (cw (fl_consumer w a)) = CIdle"
    and "a \<in> order_addr ` set order"
  shows "\<exists>ls u. run (fleet_step queue loopCtx order) w ls ((set_consumer w a u)\<lparr>fl_down := FTurn rest None\<rparr>) \<and>
    list_all closing_label ls \<and>
    w_cpc (cw u) = CClosed None \<and> cw_loop u = cw_loop (fl_consumer w a) \<and> cw_leaked u = cw_leaked (fl_consumer w a)"
proof -
  obtain t u where u: "consumer_step queue loopCtx (fl_consumer w a) (KC CEnter) t"
      "run (consumer_step queue loopCtx) t (tl clean_close) u"
      "w_cpc (cw u) = CClosed None" "cw_loop u = cw_loop (fl_consumer w a)" "cw_leaked u = cw_leaked (fl_consumer w a)"
    using closes_clean [OF assms(3)] by blast
  let ?x = "(name, i, role, a)"
  let ?w1 = "w\<lparr>fl_down := FClose (?x # rest) None False\<rparr>"
  let ?w2 = "(set_consumer ?w1 a t)\<lparr>fl_down := FClose (?x # rest) None True\<rparr>"
  let ?w3 = "(set_consumer ?w2 a u)\<lparr>fl_inflight := fl_inflight w\<rparr>"
  have r1: "run (fleet_step queue loopCtx order) w [FTurned, FEntered] ?w2"
    using assms(1,2) u(1) by (auto simp: fleet_step_simps turn_error_def)
  have r2: "run (fleet_step queue loopCtx order) ?w2 (map (FConsumer a) (tl clean_close)) ?w3"
    using fleet_lifts [of queue loopCtx ?w2 a "tl clean_close" u order] u(2) assms(4) by (simp add: clean_close_def)
  have r3: "run (fleet_step queue loopCtx order) ?w3 [FClosed] ((set_consumer w a u)\<lparr>fl_down := FTurn rest None\<rparr>)"
    using u(3) by (auto simp: fleet_step_simps closed_error_def intro: exI [of _ True])
  have "run (fleet_step queue loopCtx order) w ([FTurned, FEntered] @ map (FConsumer a) (tl clean_close) @ [FClosed])
      ((set_consumer w a u)\<lparr>fl_down := FTurn rest None\<rparr>)"
    unfolding run_append using r1 r2 r3 by blast
  moreover have "list_all closing_label ([FTurned, FEntered] @ map (FConsumer a) (tl clean_close) @ [FClosed])"
    by (simp add: clean_close_def)
  ultimately show ?thesis using u(3-5) by blast
qed

lemma turns_close_all:
  assumes "fl_down w = FTurn xs None" "fl_ctxErr w = None" "\<forall>x \<in> set xs. w_cpc (cw (fl_consumer w (order_addr x))) = CIdle"
    and "set xs \<subseteq> set order" "distinct (map order_addr xs)"
  shows "\<exists>ls v. run (fleet_step queue loopCtx order) w ls v \<and> list_all closing_label ls \<and>
    fl_down v = FTurn [] None \<and> fl_ctxErr v = None \<and> fl_inflight v = fl_inflight w \<and>
    (\<forall>b. cw_loop (fl_consumer v b) = cw_loop (fl_consumer w b) \<and> cw_leaked (fl_consumer v b) = cw_leaked (fl_consumer w b))"
  using assms
proof (induction xs arbitrary: w)
  case Nil
  then show ?case by (intro exI [of _ "[]"] exI [of _ w]) simp
next
  case (Cons x rest)
  obtain name i role a where x: "x = (name, i, role, a)" by (metis prod_cases4)
  have a: "a \<in> order_addr ` set order" using Cons.prems(4) x by force
  have idle: "w_cpc (cw (fl_consumer w a)) = CIdle" using Cons.prems(3) x by simp
  obtain ls u where u: "run (fleet_step queue loopCtx order) w ls ((set_consumer w a u)\<lparr>fl_down := FTurn rest None\<rparr>)"
      "list_all closing_label ls" "cw_loop u = cw_loop (fl_consumer w a)" "cw_leaked u = cw_leaked (fl_consumer w a)"
    using turn_closes [OF Cons.prems(1) [unfolded x] Cons.prems(2) idle a] by blast
  let ?w = "(set_consumer w a u)\<lparr>fl_down := FTurn rest None\<rparr>"
  have "\<forall>y \<in> set rest. w_cpc (cw (fl_consumer ?w (order_addr y))) = CIdle" "set rest \<subseteq> set order" "distinct (map order_addr rest)"
    using Cons.prems(3-5) x by auto
  then obtain ls' v where v: "run (fleet_step queue loopCtx order) ?w ls' v" "list_all closing_label ls'" "fl_down v = FTurn [] None" "fl_ctxErr v = None"
      "fl_inflight v = fl_inflight w"
      "\<forall>b. cw_loop (fl_consumer v b) = cw_loop (fl_consumer ?w b) \<and> cw_leaked (fl_consumer v b) = cw_leaked (fl_consumer ?w b)"
    using Cons.IH [of ?w] Cons.prems(2) by auto
  have "run (fleet_step queue loopCtx order) w (ls @ ls') v" unfolding run_append using u(1) v(1) by blast
  then show ?case using v u(2-4) by (intro exI [of _ "ls @ ls'"] exI [of _ v]) simp
qed

text \<open>A subscription, and a delivery the loop has received but not counted.\<close>

definition receiving_run :: "amqp_delivery \<Rightarrow> c_world_label list" where
  "receiving_run d = ready_run @
     [KL KGoOn, KL KSeeReady, KL KConsumePass, KL (KConsumed None), KL KNotNil, KL KNotified, KL (KDelivered d)]"

lemma receives:
  "\<exists>v x n m. run (consumer_step queue loopCtx) (consumer_start s ctx p name cb calls) (receiving_run d) v \<and>
     cw_loop v = KGot x n m d \<and> w_cpc (cw v) = CIdle \<and> \<not> cw_leaked v"
  by (simp add: receiving_run_def ready_run_def run_simps)

lemma fresh_idle: "fresh_fleet cons \<Longrightarrow> w_cpc (cw (cons b)) = CIdle \<and> \<not> cw_leaked (cons b)"
proof -
  have "w_cpc (cw (consumer_start s ctx p name cb calls)) = CIdle \<and> \<not> cw_leaked (consumer_start s ctx p name cb calls)"
    for s :: "'b system" and ctx p name cb calls
    by (simp add: consumer_start_unfold machine_start_def)
  then show "fresh_fleet cons \<Longrightarrow> ?thesis" unfolding fresh_fleet_def by metis
qed

lemma shuts_down_uncounted:
  assumes fresh: "fresh_fleet cons" and order: "distinct (map order_addr order)" "a \<in> order_addr ` set order"
  shows "\<exists>ls w x n m. run (fleet_step queue loopCtx order) (fleet_start cons) ls w \<and> fl_down w = FReturned None \<and>
    fl_inflight w = 0 \<and> \<not> some_leaked order w \<and> cw_loop (fl_consumer w a) = KGot x n m d"
proof -
  obtain v x n m where v: "run (consumer_step queue loopCtx) (cons a) (receiving_run d) v"
      "cw_loop v = KGot x n m d" "w_cpc (cw v) = CIdle" "\<not> cw_leaked v"
    using fresh receives unfolding fresh_fleet_def by metis
  let ?w = "set_consumer (fleet_start cons) a v"
  have r1: "run (fleet_step queue loopCtx order) (fleet_start cons) (map (FConsumer a) (receiving_run d)) ?w"
    using fleet_lifts [of queue loopCtx "fleet_start cons" a "receiving_run d" v order] v(1) order(2)
    by (simp add: fleet_start_def receiving_run_def ready_run_def)
  let ?w1 = "?w\<lparr>fl_down := FTurn order None\<rparr>"
  have r2: "run (fleet_step queue loopCtx order) ?w [FSnapshot] ?w1" by (simp add: fleet_step_simps fleet_start_def)
  have "\<forall>y \<in> set order. w_cpc (cw (fl_consumer ?w1 (order_addr y))) = CIdle"
    using fresh_idle [OF fresh] v(3) by (simp add: fleet_start_def)
  then obtain ls u where u: "run (fleet_step queue loopCtx order) ?w1 ls u" "fl_down u = FTurn [] None" "fl_ctxErr u = None"
      "fl_inflight u = fl_inflight ?w1"
      "\<forall>b. cw_loop (fl_consumer u b) = cw_loop (fl_consumer ?w1 b) \<and> cw_leaked (fl_consumer u b) = cw_leaked (fl_consumer ?w1 b)"
    using turns_close_all [of ?w1 order order queue loopCtx] order(1) by (auto simp: fleet_start_def)
  let ?fin = "u\<lparr>fl_down := FReturned None, fl_uncounted := list_ex (\<lambda>x. got_uncounted (fl_consumer u (order_addr x))) order\<rparr>"
  have r3: "run (fleet_step queue loopCtx order) u [FAllClosed, FDrained, FWaited None, FReturn] ?fin"
    using u(2-4) by (auto simp: fleet_step_simps fleet_start_def waitInflight_def Shutdown_result_def intro: exI [of _ True])
  have "run (fleet_step queue loopCtx order) (fleet_start cons)
      (map (FConsumer a) (receiving_run d) @ [FSnapshot] @ ls @ [FAllClosed, FDrained, FWaited None, FReturn]) ?fin"
    unfolding run_append using r1 r2 u(1) r3 by blast
  moreover have "\<not> some_leaked order ?fin"
    using u(5) v(4) fresh_idle [OF fresh] by (auto simp: some_leaked_def fleet_start_def)
  moreover have "fl_inflight ?fin = 0" "cw_loop (fl_consumer ?fin a) = KGot x n m d"
    using u(4,5) v(2) by (simp_all add: fleet_start_def)
  moreover have "fl_down ?fin = FReturned None" by simp
  ultimately show ?thesis by blast
qed

section \<open>Properties\<close>

text \<open>
  C7. \<open>Shutdown\<close> of a whole store, step by step. All consumers run with their reconnect loops while
  \<open>Shutdown\<close> closes them one after the other, each \<open>close\<close> in its single steps. If it returns without
  an error, no loop had an uncounted delivery when \<open>inflight.Wait\<close> returned, and no dial succeeds
  after the \<open>close\<close> of its client, then every consumer is closed, no handler is running or ever
  runs again, no consumer receives anything, and each loop takes at most eight more steps and four
  for every timer.
\<close>

theorem fleet_shutdown_waits:
  assumes "fresh_fleet cons" "reach (fleet_start cons) (fleet_step queue loopCtx order) w"
    and "fl_down w = FReturned None" "\<not> fl_uncounted w"
    and "run (fleet_step queue loopCtx order) w ls v" "\<not> some_leaked order v"
    and "a \<in> order_addr ` set order"
  shows "cw_closed (fl_consumer w a) \<and> \<not> handles (phase (cw_loop (fl_consumer v a))) \<and>
    (\<forall>dl. KL (KDelivered dl) \<notin> set (steps_at a ls)) \<and>
    length (filter own_label (steps_at a ls)) \<le> 8 + 4 * length (filter timer_label (steps_at a ls))"
proof -
  have inv: "fleet_inv order w" using fleet.inv_reach [OF assms(2)] assms(1) by simp
  have inv': "fleet_inv order v" using fleet.inv_run [OF _ assms(5), of cons] inv assms(1) by simp
  note ret = fleet_returned_run [OF assms(5,3), of a]
  have closed: "cw_closed (fl_consumer w a)"
  proof -
    have "closed_but order w {}" using inv assms(3) by (simp add: fleet_inv_def)
    then show ?thesis using assms(7) unfolding closed_but_def by blast
  qed
  have "all_idle order v" using inv' ret assms(4,6) by (simp add: fleet_inv_def)
  then have "busy_with (phase (cw_loop (fl_consumer v a))) = None"
    using assms(7) unfolding all_idle_def by (rule bspec)
  then have idle: "\<not> handles (phase (cw_loop (fl_consumer v a)))"
    by (cases "phase (cw_loop (fl_consumer v a))") simp_all
  have leak: "\<not> cw_leaked (fl_consumer v a)" using assms(6,7) unfolding some_leaked_def by blast
  have "consumer_inv (fl_consumer w a)" using inv by (simp add: fleet_inv_def)
  then show ?thesis
    using closed_run [OF _ closed conjunct2 [OF conjunct2 [OF ret]] leak] closed idle steps_left_8 [of "cw_loop (fl_consumer w a)"]
    by auto
qed

definition one_consumer :: "addr \<Rightarrow> nat consumer_world" where
  "one_consumer a = consumer_start demo_running 1 plain_item ''plain'' None (\<lambda>_. (0, demo_message))"

definition shutdown_run :: "fleet_label list" where
  "shutdown_run =
     [FConsumer 2 (KL KStart), FConsumer 2 (KR RStore0), FSnapshot, FTurned, FEntered, FConsumer 2 (KC CStored),
      FConsumer 2 (KC CDoneClosed), FConsumer 2 (KL KGoOn), FConsumer 2 (KC (CChanClosed None)),
      FConsumer 2 (KC (CConnClosed None)), FClosed, FAllClosed, FDrained, FWaited None, FReturn]"

lemma shutdown_run_end:
  "\<exists>w. run (fleet_step sample_store 0 [(''plain'', 0, ''consumer'', 2)]) (fleet_start one_consumer) shutdown_run w \<and>
     fl_down w = FReturned None \<and> \<not> fl_uncounted w \<and> \<not> some_leaked [(''plain'', 0, ''consumer'', 2)] w"
  by (simp add: shutdown_run_def fleet_step_simps fleet_start_def one_consumer_def run_simps turn_error_def
      closed_error_def got_uncounted_def waitInflight_def Shutdown_result_def some_leaked_def close_chan_error_def
      close_conn_error_def) blast

theorem fleet_shutdown_waits_witness:
  "\<exists>w. run (fleet_step sample_store 0 [(''plain'', 0, ''consumer'', 2)]) (fleet_start one_consumer) shutdown_run w \<and>
     cw_closed (fl_consumer w 2) \<and> \<not> handles (phase (cw_loop (fl_consumer w 2)))"
proof -
  obtain w where w: "run (fleet_step sample_store 0 [(''plain'', 0, ''consumer'', 2)]) (fleet_start one_consumer) shutdown_run w"
      "fl_down w = FReturned None" "\<not> fl_uncounted w" "\<not> some_leaked [(''plain'', 0, ''consumer'', 2)] w"
    using shutdown_run_end by blast
  have fresh: "fresh_fleet one_consumer" unfolding fresh_fleet_def one_consumer_def by blast
  have stay: "run (fleet_step sample_store 0 [(''plain'', 0, ''consumer'', 2)]) w [] w" by simp
  have "2 \<in> order_addr ` set [(''plain'', 0, ''consumer'', 2)]" by simp
  from fleet_shutdown_waits [OF fresh run_reach [OF w(1)] w(2,3) stay w(4) this] show ?thesis using w(1) by blast
qed

text \<open>
  C20. What \<open>Shutdown\<close> waits for. However \<open>Shutdown\<close>, the consumer loops, their reconnect loops and
  the network interleave, \<open>inflight\<close> is the number of handlers that are running. \<open>inflight.Wait\<close>
  can return exactly when \<open>Shutdown\<close> has come to it and no handler is running, and every consumer is
  closed then, as it is when \<open>Shutdown\<close> has returned, with or without an error.
\<close>

theorem inflight_counts_handlers:
  assumes "fresh_fleet cons" "reach (fleet_start cons) (fleet_step queue loopCtx order) w"
  shows "fl_inflight w = int (card {a. handles (phase (cw_loop (fl_consumer w a)))}) \<and>
    ((\<exists>v. fleet_step queue loopCtx order w FDrained v) \<longleftrightarrow>
       (\<exists>fe. fl_down w = FWaiting fe False) \<and> (\<forall>a. \<not> handles (phase (cw_loop (fl_consumer w a))))) \<and>
    ((\<exists>fe r. fl_down w = FWaiting fe r) \<or> (\<exists>r. fl_down w = FReturned r) \<longrightarrow>
       (\<forall>a \<in> order_addr ` set order. cw_closed (fl_consumer w a)))"
proof -
  have inv: "fleet_inv order w" using fleet.inv_reach [OF assms(2)] assms(1) by simp
  have "finite (handling_now w)" using inv finite_subset unfolding fleet_inv_def by blast
  then have zero: "fl_inflight w = 0 \<longleftrightarrow> (\<forall>a. \<not> handles (phase (cw_loop (fl_consumer w a))))"
    using inv by (auto simp: fleet_inv_def handling_now_def)
  have closed: "closed_but order w {}" if "(\<exists>fe r. fl_down w = FWaiting fe r) \<or> (\<exists>r. fl_down w = FReturned r)"
    using inv that by (auto simp: fleet_inv_def)
  show ?thesis
    using inv zero closed by (auto simp: fleet_inv_def handling_now_def fleet_step_simps closed_but_def)
qed

text \<open>A handler is running, and \<open>inflight\<close> is one.\<close>

theorem inflight_counts_handlers_witness:
  "\<exists>w. reach (fleet_start one_consumer) (fleet_step sample_store 0 [(''plain'', 0, ''consumer'', 2)]) w \<and> fl_inflight w = 1 \<and>
     card {a. handles (phase (cw_loop (fl_consumer w a)))} = 1"
proof -
  let ?order = "[(''plain'', 0, ''consumer'', 2)] :: consumer_entry list"
  obtain v x n m where v: "run (consumer_step sample_store 0) (one_consumer 2) (receiving_run stamped_delivery) v"
      "cw_loop v = KGot x n m stamped_delivery"
    using receives [of sample_store 0 demo_running 1 plain_item "''plain''" None "\<lambda>_. (0, demo_message)" stamped_delivery]
    unfolding one_consumer_def by blast
  have "consumer_step sample_store 0 v (KL KAdd) (at_k v (KHandling x n m stamped_delivery))"
    using v(2) by (simp add: consumer_step_simps loop_step_simps)
  then have "run (consumer_step sample_store 0) (one_consumer 2) (receiving_run stamped_delivery @ [KL KAdd])
      (at_k v (KHandling x n m stamped_delivery))"
    unfolding run_append using v(1) by auto
  moreover have "sum_list (map inflight_change (receiving_run stamped_delivery @ [KL KAdd])) = 1"
    "KC CEnter \<notin> set (receiving_run stamped_delivery @ [KL KAdd])"
    by (simp_all add: receiving_run_def ready_run_def)
  ultimately obtain ls w where w: "run (fleet_step sample_store 0 ?order) (fleet_start one_consumer) ls w" "fl_inflight w = 1"
    using fleet_lifts [of sample_store 0 "fleet_start one_consumer" 2 "receiving_run stamped_delivery @ [KL KAdd]" _ ?order]
    by (fastforce simp: fleet_start_def)
  have fresh: "fresh_fleet one_consumer" unfolding fresh_fleet_def one_consumer_def by blast
  from inflight_counts_handlers [OF fresh run_reach [OF w(1)]] show ?thesis using w run_reach [OF w(1)] by auto
qed

text \<open>
  C35. A handler can start after \<open>Shutdown\<close> returned. A loop that has received a delivery but not
  yet raised \<open>inflight\<close> is not waited for. For any consumers, any one of them and any delivery there
  is a run, in which no dial succeeds after a \<open>close\<close>, that ends with \<open>Shutdown\<close> having closed every
  consumer, found \<open>inflight\<close> zero and returned nil, while that loop holds the delivery; its next
  step starts the handler.
\<close>

theorem handler_starts_after_shutdown:
  assumes "fresh_fleet cons" "distinct (map order_addr order)" "a \<in> order_addr ` set order"
  shows "\<exists>ls w v x n m. run (fleet_step queue loopCtx order) (fleet_start cons) ls w \<and> fl_down w = FReturned None \<and>
    fl_inflight w = 0 \<and> \<not> some_leaked order w \<and> (\<forall>b \<in> order_addr ` set order. cw_closed (fl_consumer w b)) \<and>
    fleet_step queue loopCtx order w (FConsumer a (KL KAdd)) v \<and> fl_down v = FReturned None \<and>
    cw_loop (fl_consumer w a) = KGot x n m d \<and> cw_loop (fl_consumer v a) = KHandling x n m d"
proof -
  obtain ls w x n m where w: "run (fleet_step queue loopCtx order) (fleet_start cons) ls w" "fl_down w = FReturned None"
      "fl_inflight w = 0" "\<not> some_leaked order w" "cw_loop (fl_consumer w a) = KGot x n m d"
    using shuts_down_uncounted [OF assms] by blast
  have "fleet_inv order w" using fleet.inv_reach [OF run_reach [OF w(1)]] assms(1) by simp
  then have closed: "\<forall>b \<in> order_addr ` set order. cw_closed (fl_consumer w b)"
    by (simp add: fleet_inv_def w(2) closed_but_def)
  have "consumer_step queue loopCtx (fl_consumer w a) (KL KAdd) (at_k (fl_consumer w a) (KHandling x n m d))"
    using w(5) by (simp add: consumer_step_simps loop_step_simps)
  note step = f_consumer [OF assms(3) this]
  show ?thesis using w closed step by fastforce
qed

theorem handler_starts_after_shutdown_witness:
  "\<exists>w x n m. reach (fleet_start one_consumer) (fleet_step sample_store 0 [(''plain'', 0, ''consumer'', 2)]) w \<and>
     fl_down w = FReturned None \<and> cw_loop (fl_consumer w 2) = KGot x n m stamped_delivery"
proof -
  have fresh: "fresh_fleet one_consumer" unfolding fresh_fleet_def one_consumer_def by blast
  show ?thesis
    using handler_starts_after_shutdown [OF fresh, of "[(''plain'', 0, ''consumer'', 2)]" 2 sample_store 0 stamped_delivery]
      run_reach by fastforce
qed

end
