(* ===== verification/Topology.thy ===== *)
theory Topology
  imports Config
begin

text \<open>
  \<open>initQueue\<close> and \<open>initQueueWithRetry\<close> of client.go: the declarations a client issues on
  a fresh AMQP channel, in order, each with the error it wraps. The broker's answers are an
  argument. The properties read the declarations the way AMQP does: a queue's
  \<open>x-dead-letter-exchange\<close> and the queues bound to an exchange.
\<close>

section \<open>The code\<close>

type_synonym table = "(string, hval) gomap"

text \<open>The calls on \<open>*amqp.Channel\<close>, with all their arguments in the library's order.\<close>

datatype chan_op =
    ExchangeDeclare string string bool bool bool bool table
  | QueueDeclare string bool bool bool bool table
  | QueueBind string string string bool table
  | Qos int int bool

type_synonym init_step = "chan_op \<times> (go_error \<Rightarrow> go_error)"

text \<open>Steps run until one fails; the calls issued and the error returned, wrapped.\<close>

fun run_steps :: "(chan_op \<Rightarrow> go_error option) \<Rightarrow> init_step list \<Rightarrow> chan_op list \<times> go_error option" where
  "run_steps broker [] = ([], None)"
| "run_steps broker ((oper, wrap) # steps) =
     (case broker oper of
        Some err \<Rightarrow> ([oper], Some (wrap err))
      | None \<Rightarrow> (let (ops, r) = run_steps broker steps in (oper # ops, r)))"

definition initQueue_steps :: "string \<Rightarrow> init_step list" where
  "initQueue_steps name =
     [(QueueDeclare name True False False False None,
         \<lambda>err. Errorf ''error declaring queue %s: %w'' [name] [err]),
      (Qos 1 0 False, \<lambda>err. Errorf ''error setting QoS for queue %s: %w'' [name] [err])]"

definition initQueueWithRetry_steps :: "string \<Rightarrow> duration \<Rightarrow> init_step list" where
  "initQueueWithRetry_steps name retryDelay =
     [(ExchangeDeclare (name @ ''.ex'') ''fanout'' True False False False None,
         \<lambda>err. Errorf ''error declaring queue exchange: %w'' [] [err]),
      (ExchangeDeclare (name @ ''.delay.ex'') ''fanout'' True False False False None,
         \<lambda>err. Errorf ''error declaring delay exchange: %w'' [] [err]),
      (QueueDeclare name True False False False
         (Some [(''x-dead-letter-exchange'', HString (name @ ''.delay.ex''))]),
         \<lambda>err. Errorf ''error declaring queue %s: %w'' [name] [err]),
      (QueueDeclare (name @ ''.delay'') True False False False
         (Some [(''x-dead-letter-exchange'', HString (name @ ''.ex'')),
                (''x-message-ttl'', HInt (go_div retryDelay millisecond))]),
         \<lambda>err. Errorf ''error declaring queue %s.delay: %w'' [name] [err]),
      (QueueBind name (name @ ''.bind'') (name @ ''.ex'') False None,
         \<lambda>err. Errorf ''%w (for: %q): %w'' [name @ ''.ex''] [Sentinel ErrBindQueueToExchange, err]),
      (QueueBind (name @ ''.delay'') (name @ ''.delay.bind'') (name @ ''.delay.ex'') False None,
         \<lambda>err. Errorf ''%w (for: %q): %w'' [name @ ''.delay.ex''] [Sentinel ErrBindQueueToExchange, err]),
      (Qos 1 0 False, \<lambda>err. Errorf ''error setting QoS for queue %s: %w'' [name] [err])]"

definition initQueue :: "(chan_op \<Rightarrow> go_error option) \<Rightarrow> string \<Rightarrow> chan_op list \<times> go_error option" where
  "initQueue broker name = run_steps broker (initQueue_steps name)"

definition initQueueWithRetry ::
  "(chan_op \<Rightarrow> go_error option) \<Rightarrow> string \<Rightarrow> duration \<Rightarrow> chan_op list \<times> go_error option" where
  "initQueueWithRetry broker name retryDelay = run_steps broker (initQueueWithRetry_steps name retryDelay)"

text \<open>The choice \<open>init\<close> makes between the two.\<close>

definition declare_queue ::
  "(chan_op \<Rightarrow> go_error option) \<Rightarrow> string \<Rightarrow> retry_config option \<Rightarrow> chan_op list \<times> go_error option" where
  "declare_queue broker name r =
     (case r of Some rc \<Rightarrow> initQueueWithRetry broker name (Delay rc) | None \<Rightarrow> initQueue broker name)"

section \<open>Reading the declarations\<close>

fun declared_exchanges :: "chan_op list \<Rightarrow> string list" where
  "declared_exchanges [] = []"
| "declared_exchanges (ExchangeDeclare ex _ _ _ _ _ _ # ops) = ex # declared_exchanges ops"
| "declared_exchanges (_ # ops) = declared_exchanges ops"

fun declared_queues :: "chan_op list \<Rightarrow> (string \<times> table) list" where
  "declared_queues [] = []"
| "declared_queues (QueueDeclare q _ _ _ _ args # ops) = (q, args) # declared_queues ops"
| "declared_queues (_ # ops) = declared_queues ops"

fun bindings :: "chan_op list \<Rightarrow> (string \<times> string) list" where
  "bindings [] = []"
| "bindings (QueueBind q _ ex _ _ # ops) = (ex, q) # bindings ops"
| "bindings (_ # ops) = bindings ops"

definition queue_arg :: "chan_op list \<Rightarrow> string \<Rightarrow> string \<Rightarrow> hval option" where
  "queue_arg ops q k = (case map_of (declared_queues ops) q of Some args \<Rightarrow> gm_get args k | None \<Rightarrow> None)"

text \<open>Where a message dead-lettered from a queue goes: fanout, so to every queue bound.\<close>

definition dead_letters_to :: "chan_op list \<Rightarrow> string \<Rightarrow> string list" where
  "dead_letters_to ops q =
     (case queue_arg ops q ''x-dead-letter-exchange'' of
        Some (HString ex) \<Rightarrow> map snd (filter (\<lambda>b. fst b = ex) (bindings ops))
      | _ \<Rightarrow> [])"

text \<open>A call only names what earlier calls declared; \<open>dead_letters_known\<close> for the arguments.\<close>

fun declared_before_use :: "chan_op list \<Rightarrow> bool" where
  "declared_before_use [] = True"
| "declared_before_use (oper # earlier) =
     (declared_before_use earlier \<and>
      (case oper of
         QueueBind q _ ex _ _ \<Rightarrow> ex \<in> set (declared_exchanges earlier) \<and> q \<in> fst ` set (declared_queues earlier)
       | QueueDeclare _ _ _ _ _ args \<Rightarrow>
           (case gm_get args ''x-dead-letter-exchange'' of
              Some (HString ex) \<Rightarrow> ex \<in> set (declared_exchanges earlier)
            | _ \<Rightarrow> True)
       | _ \<Rightarrow> True))"

section \<open>Lemmas\<close>

lemma run_steps_prefix:
  "run_steps broker steps = (ops, r) \<Longrightarrow>
     \<exists>rest. map fst steps = ops @ rest \<and> (r = None \<longrightarrow> rest = [])"
  by (induction broker steps arbitrary: ops r rule: run_steps.induct)
    (auto split: option.splits prod.splits)

lemma run_steps_ok: "(\<And>oper. oper \<in> fst ` set steps \<Longrightarrow> broker oper = None) \<Longrightarrow>
    run_steps broker steps = (map fst steps, None)"
  by (induction steps) auto

lemma run_steps_error:
  "run_steps broker steps = (ops, Some err) \<Longrightarrow>
     \<exists>oper wrap cause. ops \<noteq> [] \<and> last ops = oper \<and> (oper, wrap) \<in> set steps \<and>
       broker oper = Some cause \<and> err = wrap cause"
  by (induction broker steps arbitrary: ops rule: run_steps.induct)
    (fastforce split: option.splits prod.splits)+

lemma declared_before_use_suffix: "declared_before_use (xs @ ys) \<Longrightarrow> declared_before_use ys"
  by (induction xs) auto

lemma name_distinct [simp]:
  "name @ ''.delay'' \<noteq> name" "name \<noteq> name @ ''.delay''"
  "name @ ''.ex'' \<noteq> name @ ''.delay.ex''" "name @ ''.delay.ex'' \<noteq> name @ ''.ex''"
  by simp_all

lemma steps_well_ordered:
  "declared_before_use (rev (map fst (initQueueWithRetry_steps name d)))"
  "declared_before_use (rev (map fst (initQueue_steps name)))"
  by (simp_all add: initQueueWithRetry_steps_def initQueue_steps_def gm_get_def)

section \<open>Properties\<close>

text \<open>
  C9. When every declaration succeeds, the retry topology is a closed loop of one main and one
  delay queue: a message rejected from the main queue goes to the delay queue and nowhere else,
  a message whose time is up there goes back to the main queue and nowhere else, and the time it
  waits is the configured delay in whole milliseconds.
\<close>

theorem retry_topology_loop:
  assumes "\<And>oper. broker oper = None"
  shows "\<exists>ops. initQueueWithRetry broker name d = (ops, None) \<and>
    dead_letters_to ops name = [name @ ''.delay''] \<and>
    dead_letters_to ops (name @ ''.delay'') = [name] \<and>
    queue_arg ops (name @ ''.delay'') ''x-message-ttl'' = Some (HInt (go_div d millisecond)) \<and>
    last ops = Qos 1 0 False"
proof -
  have "initQueueWithRetry broker name d = (map fst (initQueueWithRetry_steps name d), None)"
    unfolding initQueueWithRetry_def using assms by (intro run_steps_ok)
  then show ?thesis
    by (simp add: initQueueWithRetry_steps_def dead_letters_to_def queue_arg_def gm_get_def)
qed

theorem retry_topology_loop_witness:
  "\<exists>ops. initQueueWithRetry (\<lambda>_. None) ''jobs'' (60 * second) = (ops, None) \<and>
    dead_letters_to ops ''jobs'' = [''jobs.delay''] \<and> dead_letters_to ops ''jobs.delay'' = [''jobs''] \<and>
    queue_arg ops ''jobs.delay'' ''x-message-ttl'' = Some (HInt 60000)"
  using retry_topology_loop [of "\<lambda>_. None" "''jobs''" "60 * second"]
  by (auto simp: go_div_def second_def millisecond_def)

text \<open>
  The delay a valid configuration asks for survives the conversion to milliseconds: the
  queue's TTL is at least one, and within a millisecond below the configured delay.
\<close>

theorem retry_ttl_bounds:
  assumes "valid_retry r"
  shows "1 \<le> go_div (Delay r) millisecond \<and>
    go_div (Delay r) millisecond * millisecond \<le> Delay r \<and>
    Delay r < (go_div (Delay r) millisecond + 1) * millisecond"
proof -
  have d: "millisecond \<le> Delay r" using assms by (simp add: valid_retry_def)
  then have "go_div (Delay r) millisecond = Delay r div millisecond"
    by (intro go_div_nonneg) (simp_all add: millisecond_def)
  then show ?thesis using d unfolding millisecond_def by simp linarith
qed

theorem retry_ttl_bounds_witness:
  "1 \<le> go_div (Delay \<lparr>Delay = 1500000, MaxDuration = 1\<rparr>) millisecond"
  using retry_ttl_bounds [of "\<lparr>Delay = 1500000, MaxDuration = 1\<rparr>"]
  by (simp add: valid_retry_def millisecond_def)



end
