(* ===== verification/Lifecycle.thy ===== *)
theory Lifecycle
  imports Delivery Topology Publish
begin

text \<open>
  A message's life across the components: published with a stamp by \<open>unsafePush\<close>, delivered
  to \<open>handleDelivery\<close>, dead-lettered through the delay queue that \<open>initQueueWithRetry\<close>
  declared, and delivered again. The broker is outside the repository; what is used of it is a
  hypothesis (\<open>spaced\<close>): it keeps the \<open>expired\<close> header and brings a dead-lettered message
  back no sooner than the delay queue's TTL.
\<close>

section \<open>Attempts\<close>

definition settlements :: "'c effect list \<Rightarrow> settlement list" where
  "settlements effs = concat (map (\<lambda>e. case e of Settle s \<Rightarrow> [s] | _ \<Rightarrow> []) effs)"

definition fail_jobs :: "'c effect list \<Rightarrow> failed_job list" where
  "fail_jobs effs = concat (map (\<lambda>e. case e of FailJob job \<Rightarrow> [job] | _ \<Rightarrow> []) effs)"

lemma fail_jobs_iff: "job \<in> set (fail_jobs effs) \<longleftrightarrow> FailJob job \<in> set effs"
  unfolding fail_jobs_def by (induction effs) (auto split: effect.splits)

text \<open>Rejected or nacked without requeue: the broker dead-letters it.\<close>

definition dead_lettered :: "'c effect list \<Rightarrow> bool" where
  "dead_lettered effs \<longleftrightarrow> settlements effs = [Reject False] \<or> settlements effs = [Nack False False]"

text \<open>The attempts at one message, for the environments of its successive deliveries.\<close>

fun journey :: "'c queueStore \<Rightarrow> 'c \<Rightarrow> 'c client \<Rightarrow> amqp_delivery \<Rightarrow> delivery_env list \<Rightarrow> 'c effect list list" where
  "journey queue loopCtx clnt d [] = []"
| "journey queue loopCtx clnt d (env # envs) =
     (let effs = fst (handleDelivery queue env loopCtx clnt (callback clnt) d)
      in effs # (if dead_lettered effs then journey queue loopCtx clnt d envs else []))"

fun spaced :: "duration \<Rightarrow> gotime \<Rightarrow> delivery_env list \<Rightarrow> bool" where
  "spaced ttl t [] \<longleftrightarrow> True"
| "spaced ttl t (env # envs) \<longleftrightarrow> t \<le> env_now env \<and> spaced ttl (time_add (env_now env) ttl) envs"

lemma settlements_visible: "settlements (filter visible effs) = settlements effs"
  unfolding settlements_def by (induction effs) (auto split: effect.splits)

lemma fail_jobs_visible: "fail_jobs (filter visible effs) = fail_jobs effs"
  unfolding fail_jobs_def by (induction effs) (auto split: effect.splits)

lemma spaced_nth:
  "0 \<le> ttl \<Longrightarrow> spaced ttl t envs \<Longrightarrow> k < length envs \<Longrightarrow> time_add t (int k * ttl) \<le> env_now (envs ! k)"
proof (induction envs arbitrary: t k)
  case (Cons env envs)
  show ?case
  proof (cases k)
    case 0
    then show ?thesis using Cons.prems by (simp add: time_add_def less_eq_gotime_def)
  next
    case (Suc j)
    have "time_add (time_add (env_now env) ttl) (int j * ttl) \<le> env_now (envs ! j)"
      using Cons.prems Suc by (intro Cons.IH) auto
    then show ?thesis using Cons.prems Suc by (simp add: time_add_def less_eq_gotime_def algebra_simps)
  qed
qed simp

lemma journey_length: "length (journey queue loopCtx clnt d envs) \<le> length envs"
  by (induction envs) (auto simp: Let_def)

lemma journey_nth:
  "k < length (journey queue loopCtx clnt d envs) \<Longrightarrow>
     journey queue loopCtx clnt d envs ! k = fst (handleDelivery queue (envs ! k) loopCtx clnt (callback clnt) d)"
proof (induction envs arbitrary: k)
  case (Cons env envs)
  then show ?case by (cases k) (auto simp: Let_def split: if_splits)
qed simp

text \<open>An attempt that is not dead-lettered is the last.\<close>

lemma journey_stops:
  "k < length envs \<Longrightarrow> \<not> dead_lettered (fst (handleDelivery queue (envs ! k) loopCtx clnt (callback clnt) d)) \<Longrightarrow>
     length (journey queue loopCtx clnt d envs) \<le> Suc k"
proof (induction envs arbitrary: k)
  case (Cons env envs)
  then show ?case by (cases k) (auto simp: Let_def)
qed simp

lemma journey_last:
  "journey queue loopCtx clnt d envs \<noteq> [] \<Longrightarrow> length (journey queue loopCtx clnt d envs) < length envs \<Longrightarrow>
     \<not> dead_lettered (last (journey queue loopCtx clnt d envs))"
proof (induction envs)
  case (Cons env envs)
  then show ?case by (cases envs) (auto simp: Let_def split: if_splits)
qed simp

text \<open>Once some attempt would not be dead-lettered, there is a last one, and it is settled for good.\<close>

lemma journey_ends:
  assumes "k < length envs \<Longrightarrow> \<not> dead_lettered (fst (handleDelivery queue (envs ! k) loopCtx clnt (callback clnt) d))"
  shows "length (journey queue loopCtx clnt d envs) \<le> Suc k \<and>
    (k < length envs \<longrightarrow> (\<exists>i < length envs.
       last (journey queue loopCtx clnt d envs) = fst (handleDelivery queue (envs ! i) loopCtx clnt (callback clnt) d) \<and>
       \<not> dead_lettered (last (journey queue loopCtx clnt d envs))))"
proof -
  let ?j = "journey queue loopCtx clnt d envs"
  have len: "length ?j \<le> length envs" by (rule journey_length)
  have bound: "length ?j \<le> Suc k"
    using journey_stops [of k envs queue loopCtx clnt d] assms len by linarith
  moreover have "\<exists>i < length envs. last ?j = fst (handleDelivery queue (envs ! i) loopCtx clnt (callback clnt) d) \<and>
      \<not> dead_lettered (last ?j)" if k: "k < length envs"
  proof -
    have ne: "?j \<noteq> []" using k by (cases envs) (auto simp: Let_def)
    have i: "length ?j - 1 < length envs" using ne len by (cases ?j) auto
    have last: "last ?j = fst (handleDelivery queue (envs ! (length ?j - 1)) loopCtx clnt (callback clnt) d)"
      using ne journey_nth [of "length ?j - 1" queue loopCtx clnt d envs] by (simp add: last_conv_nth)
    have "\<not> dead_lettered (last ?j)"
    proof (cases "length ?j < length envs")
      case True
      then show ?thesis by (rule journey_last [OF ne])
    next
      case False
      then have "length ?j - 1 = k" using bound k len by simp
      then show ?thesis using assms [OF k] last by simp
    qed
    then show ?thesis using i last by blast
  qed
  ultimately show ?thesis by blast
qed

lemma journey_goes_on:
  "(\<And>env. env \<in> set envs \<Longrightarrow> dead_lettered (fst (handleDelivery queue env loopCtx clnt (callback clnt) d))) \<Longrightarrow>
     length (journey queue loopCtx clnt d envs) = length envs"
  by (induction envs) (auto simp: Let_def)

section \<open>One attempt in retry mode\<close>

lemma attempt_outcome:
  assumes "ConsumeHeadersExtractor clnt = Some extract"
    and "extract loopCtx (amqpTableToMap (delivery_Headers d)) = Returned ctx"
    and "fail_ready (failJobHandler queue) clnt" "withRetry clnt"
  shows "settlements (fst (handleDelivery queue env loopCtx clnt cb d)) =
      (case handler_result env cb ctx (delivery_Body d) of
         Panicked _ \<Rightarrow> [Nack False False]
       | Returned (Some e) \<Rightarrow>
           if deadline_passed (env_now env) (delivery_Headers d) \<or> \<not> IsRetryable (Some e) then [Ack False] else [Reject False]
       | Returned None \<Rightarrow> [Ack False])" (is ?s)
    and "fail_jobs (fst (handleDelivery queue env loopCtx clnt cb d)) =
      (case handler_result env cb ctx (delivery_Body d) of
         Returned (Some e) \<Rightarrow>
           if deadline_passed (env_now env) (delivery_Headers d) \<or> \<not> IsRetryable (Some e)
           then [\<lparr>job_Queue = queueName clnt, job_Body = delivery_Body d, job_Err = Some e\<rparr>] else []
       | _ \<Rightarrow> [])" (is ?f)
proof -
  let ?effs = "fst (handleDelivery queue env loopCtx clnt cb d)"
  have v: "filter visible ?effs = Extract loopCtx (amqpTableToMap (delivery_Headers d)) # Handle ctx (delivery_Body d) #
      verdict_effects (delivery_verdict env clnt cb ctx d)"
    using handleDelivery_visible [OF assms(1-3)] by blast
  show ?s unfolding settlements_visible [symmetric, of ?effs] v delivery_verdict_def
    using assms(4) by (simp add: settlements_def split: outcome.splits option.splits)
  show ?f unfolding fail_jobs_visible [symmetric, of ?effs] v delivery_verdict_def
    using assms(4) by (simp add: fail_jobs_def split: outcome.splits option.splits)
qed

section \<open>Properties\<close>

lemma stamped_passed:
  assumes "unsafePush_prepare pclnt now1 now2 msg h = Inr (Inr pub)" "retry pclnt = Some r"
    and "header_string hs ''expired'' = header_string (pub_Headers pub) ''expired''"
    and "budget = (case msg_MaxRetryDuration msg of Some m \<Rightarrow> m | None \<Rightarrow> MaxDuration r)"
    and "four_digit_year (time_add now2 budget)" "time_add now2 budget < now"
  shows "deadline_passed now hs"
proof -
  have "header_string (pub_Headers pub) ''expired'' = Some (expired_stamp now2 budget)"
    using prepare_expired [OF assms(1)] by (simp add: assms(2,4) header_string_def)
  then have "header_string hs ''expired'' = Some (expired_stamp now2 budget)"
    by (simp add: assms(3))
  then show ?thesis
    using rfc3339.not_late [OF assms(5,6)] by (simp add: deadline_passed_def expired_stamp_def)
qed

lemma delay_ttl:
  assumes "initQueueWithRetry broker name delay = (ops, None)"
  shows "queue_arg ops (name @ ''.delay'') ''x-message-ttl'' = Some (HInt (go_div delay millisecond)) \<and>
    dead_letters_to ops name = [name @ ''.delay''] \<and> dead_letters_to ops (name @ ''.delay'') = [name]"
proof -
  have "ops = map fst (initQueueWithRetry_steps name delay)"
    using run_steps_prefix assms by (fastforce simp: initQueueWithRetry_def)
  then show ?thesis
    by (simp add: initQueueWithRetry_steps_def queue_arg_def dead_letters_to_def gm_get_def)
qed

lemma ttl_positive: "valid_retry r \<Longrightarrow> 1 \<le> go_div (Delay r) millisecond"
  using zdiv_mono1 [of millisecond "Delay r" millisecond]
  by (simp add: valid_retry_def go_div_nonneg millisecond_def)

text \<open>
  C3. Retrying ends. A message published in retry mode with its own budget or the queue's is
  consumed by a client of that queue whose handler returns, with any results, at every attempt.
  The queues are declared as \<open>init\<close> declares them, the broker keeps the \<open>expired\<close> header and
  brings a dead-lettered message back no sooner than the delay queue's TTL. Then there are at
  most \<open>budget / TTL + 2\<close> attempts, and if the broker delivers that often the last one acks
  the message, as processed or after exactly one call of the fail handler with its queue and
  body.
\<close>

theorem retry_lifecycle_terminates:
  assumes push: "unsafePush_prepare pclnt now1 now2 msg h = Inr (Inr pub)" "retry pclnt = Some r" "valid_retry r"
    and budget: "budget = (case msg_MaxRetryDuration msg of Some m \<Rightarrow> m | None \<Rightarrow> MaxDuration r)"
      "four_digit_year (time_add now2 budget)"
    and queues: "initQueueWithRetry broker name (Delay r) = (ops, None)"
      "queue_arg ops (name @ ''.delay'') ''x-message-ttl'' = Some (HInt n)"
    and header: "header_string (delivery_Headers d) ''expired'' = header_string (pub_Headers pub) ''expired''"
    and consumer: "retry clnt = Some r" "ConsumeHeadersExtractor clnt = Some extract"
      "extract loopCtx (amqpTableToMap (delivery_Headers d)) = Returned ctx" "fail_ready (failJobHandler queue) clnt"
    and handler: "\<And>env. \<exists>res. handler_result env (callback clnt) ctx (delivery_Body d) = Returned res"
    and broker: "spaced (n * millisecond) now2 envs"
  shows "length (journey queue loopCtx clnt d envs) \<le> nat (budget div (n * millisecond)) + 2 \<and>
    (nat (budget div (n * millisecond)) + 2 \<le> length envs \<longrightarrow>
       settlements (last (journey queue loopCtx clnt d envs)) = [Ack False] \<and>
       (fail_jobs (last (journey queue loopCtx clnt d envs)) = [] \<or>
        (\<exists>e. fail_jobs (last (journey queue loopCtx clnt d envs)) =
           [\<lparr>job_Queue = queueName clnt, job_Body = delivery_Body d, job_Err = Some e\<rparr>])))"
proof -
  let ?j = "journey queue loopCtx clnt d envs" and ?ttl = "n * millisecond"
  have wr: "withRetry clnt" using consumer(1) by (simp add: withRetry_def)
  note outcome = attempt_outcome [OF consumer(2,3,4) wr]
  have "1 \<le> n" using delay_ttl [OF queues(1)] queues(2) ttl_positive [OF push(3)] by simp
  then have ttl: "0 < ?ttl" by (simp add: millisecond_def)
  define k where "k = nat (budget div ?ttl) + 1"
  have "budget < (budget div ?ttl + 1) * ?ttl"
    using ttl by (metis add.commute mult.commute div_mult_mod_eq pos_mod_bound add_strict_left_mono distrib_left mult.right_neutral)
  also have "\<dots> \<le> int k * ?ttl" using ttl by (intro mult_right_mono) (simp_all add: k_def)
  finally have late: "budget < int k * ?ttl" .
  have passed: "deadline_passed (env_now (envs ! k)) (delivery_Headers d)" if "k < length envs"
  proof (rule stamped_passed [OF push(1,2) header budget])
    have "time_add now2 (int k * ?ttl) \<le> env_now (envs ! k)"
      using spaced_nth [OF _ broker that] ttl by simp
    with late show "time_add now2 budget < env_now (envs ! k)"
      by (simp add: time_add_def less_gotime_def less_eq_gotime_def)
  qed
  have "\<not> dead_lettered (fst (handleDelivery queue (envs ! k) loopCtx clnt (callback clnt) d))" if "k < length envs"
    using handler [of "envs ! k"] passed [OF that]
    by (auto simp: dead_lettered_def outcome(1) split: option.splits)
  note ends = journey_ends [of k envs queue loopCtx clnt d, OF this]
  have "settlements (last ?j) = [Ack False] \<and> (fail_jobs (last ?j) = [] \<or>
      (\<exists>e. fail_jobs (last ?j) = [\<lparr>job_Queue = queueName clnt, job_Body = delivery_Body d, job_Err = Some e\<rparr>]))"
    if enough: "k < length envs"
  proof -
    obtain i where i: "last ?j = fst (handleDelivery queue (envs ! i) loopCtx clnt (callback clnt) d)"
        "\<not> dead_lettered (last ?j)"
      using ends enough by blast
    then show ?thesis
      using handler [of "envs ! i"] unfolding i(1)
      by (auto simp: dead_lettered_def outcome split: option.splits if_splits)
  qed
  with ends show ?thesis by (simp add: k_def)
qed

text \<open>A queue with a delay of a minute and a budget of three, and a handler that never succeeds.\<close>

definition minute_retry :: retry_config where
  "minute_retry = \<lparr>Delay = 60 * second, MaxDuration = 180 * second\<rparr>"

definition failing_client :: "nat client" where
  "failing_client = sample_client\<lparr>retry := Some minute_retry, isReady := True, ch := Some 1,
     callback := Some (\<lambda>_ _ _. Returned (Some (RetryableError None)))\<rparr>"

definition env_at :: "int \<Rightarrow> delivery_env" where
  "env_at t = sample_env\<lparr>env_now := Time (t * second)\<rparr>"

lemma demo_push:
  "\<exists>pub. unsafePush_prepare failing_client (Time 0) (Time 0) sample_message None = Inr (Inr pub) \<and>
     header_string (pub_Headers pub) ''expired'' = Some (expired_stamp (Time 0) (180 * second))"
  by (simp add: unsafePush_prepare_def failing_client_def sample_client_def sample_message_def Let_def
      maxPublishMessagePriority_def mapToAMQPTable_def gm_make_def gm_set_def minute_retry_def header_string_def gm_get_def)

definition minute_delivery :: amqp_delivery where
  "minute_delivery = \<lparr>delivery_Headers = Some [(''expired'', HString (expired_stamp (Time 0) (180 * second)))], delivery_Body = [1]\<rparr>"

lemma failing_client_facts:
  "retry failing_client = Some minute_retry" "valid_retry minute_retry"
  "ConsumeHeadersExtractor failing_client = Some (\<lambda>parent _. Returned parent)"
  "fail_ready (failJobHandler sample_store) failing_client"
  "handler_result env (callback failing_client) 0 b = Returned (Some (RetryableError None))"
  "header_string (delivery_Headers minute_delivery) ''expired'' = Some (expired_stamp (Time 0) (180 * second))"
  by (simp_all add: failing_client_def sample_client_def minute_retry_def valid_retry_def second_def millisecond_def
      fail_ready_def sample_store_def handler_result_def minute_delivery_def header_string_def gm_get_def)

lemma minute_queues:
  "\<exists>ops. initQueueWithRetry (\<lambda>_. None) ''jobs'' (Delay minute_retry) = (ops, None) \<and>
     queue_arg ops (''jobs'' @ ''.delay'') ''x-message-ttl'' = Some (HInt 60000)"
proof -
  obtain ops where o: "initQueueWithRetry (\<lambda>_. None) ''jobs'' (Delay minute_retry) = (ops, None)"
    using run_steps_ok [of "initQueueWithRetry_steps ''jobs'' (Delay minute_retry)" "\<lambda>_. None"]
    by (auto simp: initQueueWithRetry_def)
  with delay_ttl [OF o] show ?thesis by (simp add: minute_retry_def go_div_def second_def millisecond_def)
qed

theorem retry_lifecycle_terminates_witness:
  "settlements (last (journey sample_store 0 failing_client minute_delivery (map env_at [0, 60, 120, 180, 240]))) = [Ack False]"
proof -
  obtain pub where pub: "unsafePush_prepare failing_client (Time 0) (Time 0) sample_message None = Inr (Inr pub)"
      "header_string (pub_Headers pub) ''expired'' = Some (expired_stamp (Time 0) (180 * second))"
    using demo_push by blast
  obtain ops where ops: "initQueueWithRetry (\<lambda>_. None) ''jobs'' (Delay minute_retry) = (ops, None)"
      "queue_arg ops (''jobs'' @ ''.delay'') ''x-message-ttl'' = Some (HInt 60000)"
    using minute_queues by blast
  have b: "180 * second = (case msg_MaxRetryDuration sample_message of Some m \<Rightarrow> m | None \<Rightarrow> MaxDuration minute_retry)"
    by (simp add: sample_message_def minute_retry_def)
  have y: "four_digit_year (time_add (Time 0) (180 * second))"
    by (simp add: four_digit_year_def unix_secs_def time_add_def second_def)
  have hs: "header_string (delivery_Headers minute_delivery) ''expired'' = header_string (pub_Headers pub) ''expired''"
    by (simp add: pub(2) failing_client_facts(6))
  have sp: "spaced (60000 * millisecond) (Time 0) (map env_at [0, 60, 120, 180, 240])"
    by (simp add: env_at_def time_add_def less_eq_gotime_def second_def millisecond_def)
  from retry_lifecycle_terminates [OF pub(1) failing_client_facts(1,2) b y ops hs failing_client_facts(1,3) refl
      failing_client_facts(4) _ sp]
  show ?thesis using failing_client_facts(5) by (simp add: second_def millisecond_def)
qed

text \<open>
  C37. A message whose handler panics is never given up. In retry mode every attempt is nacked
  without requeue, which dead-letters it into the delay queue and from there back to the main
  queue: there are as many attempts as the broker makes, whatever the deadline, and none calls
  the fail handler.
\<close>

theorem panicking_message_never_ends:
  assumes "initQueueWithRetry broker name delay = (ops, None)"
    and "withRetry clnt" "ConsumeHeadersExtractor clnt = Some extract"
    and "extract loopCtx (amqpTableToMap (delivery_Headers d)) = Returned ctx" "fail_ready (failJobHandler queue) clnt"
    and "\<And>env. \<exists>p. handler_result env (callback clnt) ctx (delivery_Body d) = Panicked p"
  shows "dead_letters_to ops name = [name @ ''.delay''] \<and> dead_letters_to ops (name @ ''.delay'') = [name] \<and>
    length (journey queue loopCtx clnt d envs) = length envs \<and>
    (\<forall>effs \<in> set (journey queue loopCtx clnt d envs). settlements effs = [Nack False False] \<and> fail_jobs effs = [])"
proof -
  note outcome = attempt_outcome [OF assms(3,4,5,2)]
  have a: "settlements (fst (handleDelivery queue env loopCtx clnt (callback clnt) d)) = [Nack False False] \<and>
      fail_jobs (fst (handleDelivery queue env loopCtx clnt (callback clnt) d)) = []" for env
    using assms(6) [of env] by (auto simp: outcome)
  have "length (journey queue loopCtx clnt d envs) = length envs"
    by (rule journey_goes_on) (simp add: dead_lettered_def a)
  moreover have "settlements effs = [Nack False False] \<and> fail_jobs effs = []"
    if "effs \<in> set (journey queue loopCtx clnt d envs)" for effs
    using that a journey_nth [of _ queue loopCtx clnt d envs] by (metis in_set_conv_nth)
  ultimately show ?thesis using delay_ttl [OF assms(1)] by blast
qed

theorem panicking_message_never_ends_witness:
  "length (journey sample_store 0 (failing_client\<lparr>callback := None\<rparr>) minute_delivery (replicate 1000 (env_at 9000))) = 1000"
proof -
  obtain ops where ops: "initQueueWithRetry (\<lambda>_. None) ''jobs'' (Delay minute_retry) = (ops, None)"
    using minute_queues by blast
  let ?c = "failing_client\<lparr>callback := None\<rparr>"
  have c: "withRetry ?c" "ConsumeHeadersExtractor ?c = Some (\<lambda>parent _. Returned parent)"
      "fail_ready (failJobHandler sample_store) ?c"
    using failing_client_facts(1,3,4) by (simp_all add: withRetry_def fail_ready_def)
  have h: "\<exists>p. handler_result env (callback ?c) 0 (delivery_Body minute_delivery) = Panicked p" for env
    by (simp add: handler_result_def)
  show ?thesis
    using panicking_message_never_ends [OF ops c(1,2) refl c(3) h, of "replicate 1000 (env_at 9000)"] by simp
qed

end
