(* ===== verification/FailedJobs.thy ===== *)
theory FailedJobs
  imports StoreProps Lifecycle "HOL-Library.Multiset"
begin

text \<open>
  \<open>examples/failed-jobs/main.go\<close>: the in-memory store of failed jobs, the fail handler that
  fills it, the consumer's handler, and the two ways back to the queue, \<open>republish\<close> and the
  HTTP endpoint \<open>POST /retry\<close>. Every method of the store holds \<open>mu\<close> from start to end, so each
  is one step, and concurrent goroutines interleave whole methods. \<open>list\<close> copies the slice, so
  no one else ever holds it. The HTTP server, the JSON encoder and the logger are not modelled;
  \<open>push\<close> stands for what the library's \<open>push\<close> of the chosen publisher returns.
\<close>

section \<open>Strings and bytes\<close>

text \<open>The conversions \<open>string(b)\<close> and \<open>[]byte(s)\<close>.\<close>

definition text_of :: "bytes \<Rightarrow> string" where
  "text_of = map (\<lambda>b. char_of (unat b))"

definition bytes_of :: "string \<Rightarrow> bytes" where
  "bytes_of = map (\<lambda>c. word_of_nat (of_char c))"

lemma bytes_of_text [simp]: "bytes_of (text_of b) = b"
proof -
  have "word_of_nat (of_char (char_of (unat x) :: char)) = x" for x :: byte
    using unsigned_less [of x, where ?'a = nat] by simp
  then show ?thesis by (simp add: bytes_of_def text_of_def comp_def)
qed

lemma text_of_Nil [simp]: "text_of b = [] \<longleftrightarrow> b = []"
  by (simp add: text_of_def)

section \<open>The store\<close>

record storedJob =
  sj_ID :: int
  sj_Queue :: string
  sj_Body :: string
  sj_Err :: string

record memoryStore =
  ms_next :: int
  ms_jobs :: "storedJob list"

definition add_job :: "(string \<Rightarrow> string) \<Rightarrow> memoryStore \<Rightarrow> failed_job \<Rightarrow> memoryStore \<times> storedJob" where
  "add_job quote s job =
     (let n = int64 (ms_next s + 1);
          errMsg = (case job_Err job of None \<Rightarrow> [] | Some e \<Rightarrow> error_text quote e);
          item = \<lparr>sj_ID = n, sj_Queue = job_Queue job, sj_Body = text_of (job_Body job), sj_Err = errMsg\<rparr>
      in (\<lparr>ms_next = n, ms_jobs = ms_jobs s @ [item]\<rparr>, item))"

definition list_jobs :: "memoryStore \<Rightarrow> storedJob list" where
  "list_jobs s = ms_jobs s"

text \<open>The loop of \<open>take\<close>: the first job of that ID, and the slice without it.\<close>

fun remove_job :: "int \<Rightarrow> storedJob list \<Rightarrow> (storedJob list \<times> storedJob) option" where
  "remove_job jid [] = None"
| "remove_job jid (job # jobs) =
     (if sj_ID job = jid then Some (jobs, job)
      else map_option (\<lambda>(rest, j). (job # rest, j)) (remove_job jid jobs))"

definition take_job :: "int \<Rightarrow> memoryStore \<Rightarrow> memoryStore \<times> storedJob option" where
  "take_job jid s =
     (case remove_job jid (ms_jobs s) of
        None \<Rightarrow> (s, None)
      | Some (rest, job) \<Rightarrow> (s\<lparr>ms_jobs := rest\<rparr>, Some job))"

section \<open>The handlers\<close>

text \<open>
  What the closures of \<open>main\<close> share: the store, the buffer of \<open>stored\<close> (capacity 8), the
  \<open>sync.Once\<close> and whether \<open>recovered\<close> is closed.
\<close>

record failed_demo =
  demo_store :: memoryStore
  demo_stored :: "storedJob list"
  recoveredOnce :: bool
  recovered_closed :: bool

text \<open>The fail handler; \<open>None\<close> when it blocks on the full channel.\<close>

definition demo_fail_handler ::
  "(string \<Rightarrow> string) \<Rightarrow> failed_job \<Rightarrow> failed_demo \<Rightarrow> failed_demo \<times> go_error option option" where
  "demo_fail_handler quote job st =
     (let (store, item) = add_job quote (demo_store st) job; st = st\<lparr>demo_store := store\<rparr>
      in if length (demo_stored st) < 8 then (st\<lparr>demo_stored := demo_stored st @ [item]\<rparr>, Some None)
         else (st, None))"

text \<open>Closing a closed channel would panic; the \<open>sync.Once\<close> is what prevents it.\<close>

definition demo_consumer :: "bytes \<Rightarrow> failed_demo \<Rightarrow> failed_demo \<times> go_error option outcome" where
  "demo_consumer body st =
     (let msg = text_of body in
      if msg = ''hello-from-retry'' then
        (if recoveredOnce st then (st, Returned None)
         else if recovered_closed st then (st\<lparr>recoveredOnce := True\<rparr>, Panicked ''close of closed channel'')
         else (st\<lparr>recoveredOnce := True, recovered_closed := True\<rparr>, Returned None))
      else if msg = ''fail:boom'' then (st, Returned (Some (Opaque ''permanent demo failure'')))
      else (st, Returned (Retry (Some (Opaque ''temporary demo failure'')))))"

section \<open>Back to the queue\<close>

text \<open>
  \<open>republish\<close>: the store and the client registry afterwards, what was handed to a publisher, and
  the error returned.
\<close>

definition republish ::
  "(addr \<Rightarrow> publish_message \<Rightarrow> go_error option) \<Rightarrow> memoryStore \<Rightarrow> 'c system \<Rightarrow> int \<Rightarrow> bytes \<Rightarrow>
     memoryStore \<times> 'c system \<times> (addr \<times> publish_message) list \<times> go_error option" where
  "republish push store queue jid body =
     (case take_job jid store of
        (store, None) \<Rightarrow> (store, queue, [], Some (Opaque ''failed job not found''))
      | (store, Some job) \<Rightarrow>
          (let body = (if length body = 0 then bytes_of (sj_Body job) else body);
               msg = \<lparr>msg_Body = body, msg_ContentType = [], msg_MaxRetryDuration = None, msg_Priority = None\<rparr>
           in case Publish queue (sj_Queue job) of
                (queue, Inl err) \<Rightarrow> (store, queue, [], Some err)
              | (queue, Inr a) \<Rightarrow> (store, queue, [(a, msg)], push a msg)))"

text \<open>\<open>strconv.Atoi\<close>: an optional sign, decimal digits, and the range of an int.\<close>

definition atoi :: "string \<Rightarrow> int option" where
  "atoi s =
     (let (neg, ds) = (case s of [] \<Rightarrow> (False, []) | c # r \<Rightarrow>
            if c = CHR ''-'' then (True, r) else if c = CHR ''+'' then (False, r) else (False, s));
          n = (if neg then - digits_val ds else digits_val ds)
      in if ds = [] \<or> \<not> list_all is_digit ds \<or> \<not> in_int64 n then None else Some n)"

text \<open>\<open>POST /retry\<close>: the status and the body of the response. \<open>http.Error\<close> ends its text with a newline.\<close>

definition retry_endpoint ::
  "(string \<Rightarrow> string) \<Rightarrow> (addr \<Rightarrow> publish_message \<Rightarrow> go_error option) \<Rightarrow> memoryStore \<Rightarrow> 'c system \<Rightarrow> string \<Rightarrow>
     memoryStore \<times> 'c system \<times> (addr \<times> publish_message) list \<times> nat \<times> string" where
  "retry_endpoint quote push store queue id_param =
     (case atoi id_param of
        None \<Rightarrow> (store, queue, [], 400, ''id must be a positive integer'' @ [char_of (10 :: nat)])
      | Some jid \<Rightarrow>
          if jid \<le> 0 then (store, queue, [], 400, ''id must be a positive integer'' @ [char_of (10 :: nat)])
          else
            (case republish push store queue jid [] of
               (store, queue, sent, Some err) \<Rightarrow> (store, queue, sent, 404, error_text quote err @ [char_of (10 :: nat)])
             | (store, queue, sent, None) \<Rightarrow> (store, queue, sent, 200, ''OK'' @ [char_of (10 :: nat)])))"

section \<open>The contract of the store\<close>

text \<open>
  What \<open>republish\<close> relies on: a finite map from IDs to jobs, where adding takes a fresh ID and
  taking removes. \<open>room\<close> says the counter has not reached the largest int.
\<close>

locale job_store =
  fixes content :: "'s \<Rightarrow> int \<Rightarrow> 'j option"
    and ok :: "'s \<Rightarrow> bool"
    and room :: "'s \<Rightarrow> bool"
    and put :: "'s \<Rightarrow> 'a \<Rightarrow> 's \<times> 'j"
    and remove :: "int \<Rightarrow> 's \<Rightarrow> 's \<times> 'j option"
    and key :: "'j \<Rightarrow> int"
  assumes put_law: "ok s \<Longrightarrow> room s \<Longrightarrow> put s x = (s', j) \<Longrightarrow>
      ok s' \<and> content s (key j) = None \<and> content s' = (content s)(key j \<mapsto> j)"
    and remove_law: "ok s \<Longrightarrow> remove i s = (s', r) \<Longrightarrow>
      ok s' \<and> r = content s i \<and> content s' = (content s)(i := None)"
begin

lemma put_remove:
  assumes "ok s" "room s" "put s x = (s', j)" "remove (key j) s' = (s'', r)"
  shows "r = Some j \<and> ok s'' \<and> content s'' = content s"
  using put_law [OF assms(1-3)] remove_law [OF _ assms(4)] by (auto simp: fun_eq_iff)

lemma remove_once:
  assumes "ok s" "remove i s = (s', r)"
  shows "snd (remove i s') = None"
  using remove_law [OF assms] remove_law [of s' i "fst (remove i s')" "snd (remove i s')"] by simp

end

definition job_at :: "memoryStore \<Rightarrow> int \<Rightarrow> storedJob option" where
  "job_at s = map_of (map (\<lambda>j. (sj_ID j, j)) (ms_jobs s))"

definition memory_ok :: "memoryStore \<Rightarrow> bool" where
  "memory_ok s \<longleftrightarrow> 0 \<le> ms_next s \<and> in_int64 (ms_next s) \<and>
     sorted_wrt (<) (map sj_ID (ms_jobs s)) \<and> (\<forall>j \<in> set (ms_jobs s). 0 < sj_ID j \<and> sj_ID j \<le> ms_next s)"

definition id_left :: "memoryStore \<Rightarrow> bool" where
  "id_left s \<longleftrightarrow> in_int64 (ms_next s + 1)"

lemma remove_job_cases:
  "remove_job jid jobs = None \<and> (\<forall>j \<in> set jobs. sj_ID j \<noteq> jid) \<or>
   (\<exists>pre job post. jobs = pre @ job # post \<and> sj_ID job = jid \<and> remove_job jid jobs = Some (pre @ post, job))"
proof (induction jobs)
  case (Cons j jobs)
  then show ?case
    by (cases "sj_ID j = jid") (fastforce intro: exI [of _ "j # _"] exI [of _ "[]"])+
qed simp

lemma take_job_cases:
  assumes "take_job jid s = (s', r)"
  obtains "s' = s" "r = None" "\<forall>j \<in> set (ms_jobs s). sj_ID j \<noteq> jid"
  | pre job post where "ms_jobs s = pre @ job # post" "sj_ID job = jid" "r = Some job"
      "s' = s\<lparr>ms_jobs := pre @ post\<rparr>"
  using remove_job_cases [of jid "ms_jobs s"] assms by (auto simp: take_job_def)

interpretation ms: job_store job_at memory_ok id_left "add_job quote" take_job sj_ID for quote
proof
  fix s s' j and x :: failed_job
  assume ok: "memory_ok s" and room: "id_left s" and add: "add_job quote s x = (s', j)"
  have s': "s' = \<lparr>ms_next = ms_next s + 1, ms_jobs = ms_jobs s @ [j]\<rparr>" and j: "sj_ID j = ms_next s + 1"
    using add room by (auto simp: add_job_def Let_def id_left_def)
  have fresh: "job_at s (sj_ID j) = None"
    using ok by (auto simp: job_at_def map_of_eq_None_iff memory_ok_def j)
  have "memory_ok s'"
    using ok room by (fastforce simp: memory_ok_def id_left_def s' j sorted_wrt_append)
  moreover have "job_at s' = (job_at s)(sj_ID j \<mapsto> j)"
    using fresh by (auto simp: job_at_def s' fun_eq_iff map_add_def split: option.splits)
  ultimately show "memory_ok s' \<and> job_at s (sj_ID j) = None \<and> job_at s' = (job_at s)(sj_ID j \<mapsto> j)"
    using fresh by blast
next
  fix s s' i r
  assume ok: "memory_ok s" and take: "take_job i s = (s', r)"
  from take show "memory_ok s' \<and> r = job_at s i \<and> job_at s' = (job_at s)(i := None)"
  proof (cases rule: take_job_cases)
    case 1
    then have "job_at s i = None" by (auto simp: job_at_def map_of_eq_None_iff)
    then show ?thesis using ok 1 by (simp add: fun_upd_idem)
  next
    case (2 pre job post)
    have d: "i \<notin> sj_ID ` set pre" "i \<notin> sj_ID ` set post"
      using ok 2(1,2) by (auto simp: memory_ok_def sorted_wrt_append)
    then have none: "map_of (map (\<lambda>j. (sj_ID j, j)) pre) i = None" "map_of (map (\<lambda>j. (sj_ID j, j)) post) i = None"
      by (auto simp: map_of_eq_None_iff)
    have "memory_ok s'"
      using ok 2 by (auto simp: memory_ok_def sorted_wrt_append)
    then show ?thesis
      using 2 none by (auto simp: job_at_def map_add_def fun_eq_iff split: option.splits)
  qed
qed

section \<open>Runs of the store\<close>

text \<open>The store's methods as the goroutines of the program interleave them.\<close>

datatype job_op = AddJob failed_job | TakeJob int | ListJobs

fun run_ops ::
  "(string \<Rightarrow> string) \<Rightarrow> memoryStore \<Rightarrow> job_op list \<Rightarrow> memoryStore \<times> storedJob list \<times> storedJob list" where
  "run_ops quote s [] = (s, [], [])"
| "run_ops quote s (AddJob job # ops) =
     (let (s, item) = add_job quote s job; (s, added, taken) = run_ops quote s ops in (s, item # added, taken))"
| "run_ops quote s (TakeJob i # ops) =
     (let (s, r) = take_job i s; (s, added, taken) = run_ops quote s ops
      in (s, added, (case r of None \<Rightarrow> [] | Some job \<Rightarrow> [job]) @ taken))"
| "run_ops quote s (ListJobs # ops) = run_ops quote s ops"

definition empty_jobs :: memoryStore where
  "empty_jobs = \<lparr>ms_next = 0, ms_jobs = []\<rparr>"

lemma empty_jobs_ok: "memory_ok empty_jobs"
  by (simp add: memory_ok_def empty_jobs_def in_int64_def)

lemma add_job_simps:
  "add_job quote s job = (s', item) \<Longrightarrow> id_left s \<Longrightarrow>
     ms_next s' = ms_next s + 1 \<and> ms_jobs s' = ms_jobs s @ [item] \<and> sj_ID item = ms_next s + 1"
  by (auto simp: add_job_def Let_def id_left_def)

lemma take_job_simps:
  assumes "take_job i s = (s', r)"
  shows "ms_next s' = ms_next s \<and>
    mset (ms_jobs s) = mset (ms_jobs s') + mset (case r of None \<Rightarrow> [] | Some job \<Rightarrow> [job])"
  using assms by (cases rule: take_job_cases) auto

lemma run_ops_books:
  assumes "run_ops quote s ops = (s', added, taken)" "memory_ok s" "ms_next s + int (length ops) < 2 ^ 63"
  shows "memory_ok s' \<and> mset (ms_jobs s) + mset added = mset (ms_jobs s') + mset taken \<and>
    map sj_ID added = map (\<lambda>k. ms_next s + 1 + int k) [0..<length added]"
  using assms
proof (induction quote s ops arbitrary: s' added taken rule: run_ops.induct)
  case (2 quote s job ops)
  obtain t item where a: "add_job quote s job = (t, item)" by force
  obtain added' where r: "run_ops quote t ops = (s', added', taken)" and added: "added = item # added'"
    using "2.prems"(1) a by (auto split: prod.splits)
  have room: "id_left s" using "2.prems"(2,3) by (simp add: id_left_def in_int64_def memory_ok_def)
  note st = add_job_simps [OF a room]
  have ok: "memory_ok t" using ms.put_law [OF "2.prems"(2) room a] by blast
  have IH: "memory_ok s' \<and> mset (ms_jobs t) + mset added' = mset (ms_jobs s') + mset taken \<and>
      map sj_ID added' = map (\<lambda>k. ms_next t + 1 + int k) [0..<length added']"
    by (rule "2.IH" [OF a [symmetric] refl r ok]) (use "2.prems"(3) st in simp)
  have "map sj_ID added = map (\<lambda>k. ms_next s + 1 + int k) (0 # map Suc [0..<length added'])"
    using IH st by (simp add: added comp_def add.assoc)
  then show ?case using IH st by (simp add: added upt_conv_Cons map_Suc_upt del: upt_Suc)
next
  case (3 quote s i ops)
  obtain t r where a: "take_job i s = (t, r)" by force
  obtain taken' where u: "run_ops quote t ops = (s', added, taken')"
      and taken: "taken = (case r of None \<Rightarrow> [] | Some job \<Rightarrow> [job]) @ taken'"
    using "3.prems"(1) a by (auto split: prod.splits)
  note st = take_job_simps [OF a]
  have ok: "memory_ok t" using ms.remove_law [OF "3.prems"(2) a] by blast
  have IH: "memory_ok s' \<and> mset (ms_jobs t) + mset added = mset (ms_jobs s') + mset taken' \<and>
      map sj_ID added = map (\<lambda>k. ms_next t + 1 + int k) [0..<length added]"
    by (rule "3.IH" [OF a [symmetric] refl u ok]) (use "3.prems"(3) st in simp)
  then show ?case using st by (simp add: taken)
qed simp_all

text \<open>
  C38. No failed job is lost or handed out twice by the store. However the fail handler, the
  HTTP requests and \<open>main\<close> interleave its methods, the jobs put in get the IDs 1, 2, 3 and so
  on, and each of them is either still stored or was taken exactly once.
\<close>

theorem failed_jobs_conserved:
  assumes "run_ops quote empty_jobs ops = (s, added, taken)" "length ops < 2 ^ 63"
  shows "mset added = mset (ms_jobs s) + mset taken \<and> map sj_ID added = map int [1..<Suc (length added)] \<and>
    distinct (ms_jobs s @ taken) \<and> memory_ok s"
proof -
  have "int (length ops) < 2 ^ 63" using assms(2) by (metis of_nat_less_iff of_nat_numeral of_nat_power)
  then have b: "memory_ok s \<and> mset added = mset (ms_jobs s) + mset taken \<and>
      map sj_ID added = map (\<lambda>k. 1 + int k) [0..<length added]"
    using run_ops_books [OF assms(1) empty_jobs_ok] by (simp add: empty_jobs_def)
  then have ids: "map sj_ID added = map int [1..<Suc (length added)]"
    by (simp add: map_Suc_upt [symmetric] comp_def del: upt_Suc map_Suc_upt)
  have "distinct (map sj_ID added)" unfolding ids by (simp add: distinct_map del: upt_Suc)
  then have "distinct added" by (simp add: distinct_map)
  then have "distinct (ms_jobs s @ taken)"
    using b mset_eq_imp_distinct_iff [of "ms_jobs s @ taken" added] by simp
  then show ?thesis using b ids by blast
qed

definition nacked_job :: failed_job where
  "nacked_job = \<lparr>job_Queue = ''jobs'', job_Body = [1], job_Err = Some (Sentinel ErrPublishNack)\<rparr>"

theorem failed_jobs_conserved_witness:
  "\<exists>s added taken. run_ops (\<lambda>t. t) empty_jobs
       [AddJob nacked_job, AddJob nacked_job, TakeJob 1, TakeJob 1, ListJobs] = (s, added, taken) \<and>
     map sj_ID added = [1, 2] \<and> map sj_ID (ms_jobs s) = [2] \<and> distinct (ms_jobs s @ taken)"
proof -
  let ?ops = "[AddJob nacked_job, AddJob nacked_job, TakeJob 1, TakeJob 1, ListJobs]"
  obtain s added taken where r: "run_ops (\<lambda>t. t) empty_jobs ?ops = (s, added, taken)" by (metis prod_cases3)
  then have "map sj_ID added = [1, 2] \<and> map sj_ID (ms_jobs s) = [2]"
    by (auto simp: empty_jobs_def add_job_def take_job_def in_int64_def Let_def)
  then show ?thesis using failed_jobs_conserved [OF r] r by auto
qed

section \<open>From the consumer to the store and back\<close>

text \<open>Every job the fail handler gets is the delivery's own queue and body.\<close>

lemma finalize_job:
  "finalizeFailedRetry fail env clnt d e expired retryable = (effs, p) \<Longrightarrow> FailJob job \<in> set effs \<Longrightarrow>
     job = \<lparr>job_Queue = queueName clnt, job_Body = delivery_Body d, job_Err = Some e\<rparr>"
  by (auto simp: finalizeFailedRetry_def settle_def Let_def split: option.splits outcome.splits if_splits)

lemma settle_no_job [simp]: "FailJob job \<notin> set (settle env x msg)"
  by (simp add: settle_def split: option.splits)

lemma handleDelivery_job:
  assumes "FailJob job \<in> set (fst (handleDelivery queue env loopCtx clnt cb d))"
  shows "\<exists>e. job = \<lparr>job_Queue = queueName clnt, job_Body = delivery_Body d, job_Err = Some e\<rparr>"
  using assms
  by (auto simp: handleDelivery_def extractExpiredHeader_def invokeHandler_def settling_defs Let_def
      handleConsumerError_def handleRetryError_def dest!: finalize_job
      split: option.splits outcome.splits if_splits prod.splits)

lemma republish_found:
  assumes "memory_ok store" "job_at store i = Some job" "republish push store s i body = (store', s', sent, r)"
    "Publish s (sj_Queue job) = (t, p)"
  shows "memory_ok store' \<and> job_at store' = (job_at store)(i := None) \<and> s' = t \<and>
    (case p of Inl e \<Rightarrow> sent = [] \<and> r = Some e
     | Inr a \<Rightarrow> \<exists>msg. sent = [(a, msg)] \<and> r = push a msg \<and>
         msg_Body msg = (if body = [] then bytes_of (sj_Body job) else body))"
proof -
  obtain st x where t: "take_job i store = (st, x)" by force
  note law = ms.remove_law [OF assms(1) t]
  show ?thesis
    using law assms(2-4) by (auto simp: republish_def t Let_def split: sum.splits)
qed

text \<open>
  A failed message goes back to its own queue, byte for byte. Take a delivery whose handling
  calls the fail handler with a job, store that job, and republish it by its ID without a new
  body, on a consistent store of clients where the queue may be published to: exactly one
  message is handed over, to the publisher of the client's queue, with the body of the delivery,
  its result is the request's result, and the store of failed jobs is as before the failure.
\<close>

theorem republish_resends_job:
  assumes "fail_jobs (fst (handleDelivery queue env loopCtx clnt cb d)) = [job]"
    and "memory_ok store" "id_left store" "add_job quote store job = (store1, item)"
    and "system_ok s" "queue_param s (queueName clnt) = Some p" "\<not> ConsumerOnly p"
    and "republish push store1 s (sj_ID item) [] = (store2, s', sent, r)"
  shows "\<exists>a msg. sent = [(a, msg)] \<and> r = push a msg \<and> msg_Body msg = delivery_Body d \<and>
    queueName (client_at s' a) = queueName clnt \<and> job_at store2 = job_at store"
proof -
  have "FailJob job \<in> set (fst (handleDelivery queue env loopCtx clnt cb d))"
    unfolding fail_jobs_iff [symmetric] assms(1) by simp
  from handleDelivery_job [OF this] obtain e where job: "job = \<lparr>job_Queue = queueName clnt, job_Body = delivery_Body d, job_Err = Some e\<rparr>"
    by blast
  have item: "sj_Queue item = queueName clnt" "bytes_of (sj_Body item) = delivery_Body d"
    using assms(4) by (auto simp: add_job_def Let_def job)
  note put = ms.put_law [OF assms(2-4)]
  then have found: "job_at store1 (sj_ID item) = Some item" by simp
  obtain t x where pub: "Publish s (queueName clnt) = (t, x)" by force
  obtain a where a: "x = Inr a" "queueName (client_at t a) = queueName clnt"
    using Publish_where [OF assms(5) pub] assms(6,7) by auto
  have "Publish s (sj_Queue item) = (t, Inr a)" using pub a(1) item(1) by simp
  note r = republish_found [OF conjunct1 [OF put] found assms(8) this, simplified]
  then obtain msg where "sent = [(a, msg)]" "r = push a msg" "msg_Body msg = delivery_Body d"
    using item(2) by auto
  moreover have "job_at store2 = job_at store"
    using put r by (metis fun_upd_upd fun_upd_triv)
  moreover have "queueName (client_at s' a) = queueName clnt" using r a(2) by simp
  ultimately show ?thesis by blast
qed

text \<open>
  A failed publish loses the job. \<open>republish\<close> takes the job out of the store before it
  publishes: when the queue is unknown or consume-only or the publish fails, the request reports
  the error, the job is no longer stored, and every later request for its ID is told it does not
  exist.
\<close>

theorem failed_publish_loses_job:
  assumes "memory_ok store" "job_at store i = Some job" "republish push store s i body = (store', s', sent, Some e)"
  shows "job_at store' i = None \<and> (\<forall>(a, msg) \<in> set sent. push a msg = Some e) \<and>
    republish push2 store' s2 i body2 = (store', s2, [], Some (Opaque ''failed job not found''))"
proof -
  obtain t p where pub: "Publish s (sj_Queue job) = (t, p)" by force
  note r = republish_found [OF assms pub]
  obtain st x where t: "take_job i store' = (st, x)" by force
  have "x = None" using ms.remove_law [OF conjunct1 [OF r] t] r by simp
  moreover have "st = store'" using t \<open>x = None\<close> by (auto simp: take_job_def split: option.splits)
  ultimately show ?thesis using r by (auto simp: republish_def t split: sum.splits)
qed

section \<open>Concrete runs\<close>

text \<open>A delivery of the queue \<open>plain\<close> whose handler gives up at once.\<close>

definition giving_up :: "nat client" where
  "giving_up = failing_client\<lparr>queueName := ''plain'',
     callback := Some (\<lambda>_ _ _. Returned (Some (Opaque ''permanent demo failure'')))\<rparr>"

definition boom :: amqp_delivery where
  "boom = minute_delivery\<lparr>delivery_Body := bytes_of ''fail:boom''\<rparr>"

definition boom_job :: failed_job where
  "boom_job = \<lparr>job_Queue = ''plain'', job_Body = bytes_of ''fail:boom'', job_Err = Some (Opaque ''permanent demo failure'')\<rparr>"

lemma boom_fails:
  "fail_jobs (fst (handleDelivery sample_store env 0 giving_up (callback giving_up) boom)) = [boom_job]"
proof -
  have "ConsumeHeadersExtractor giving_up = Some (\<lambda>parent _. Returned parent)" "fail_ready (failJobHandler sample_store) giving_up"
      "withRetry giving_up"
    using failing_client_facts by (simp_all add: giving_up_def fail_ready_def withRetry_def)
  moreover have b: "delivery_Body boom = bytes_of ''fail:boom''" "queueName giving_up = ''plain''"
      "callback giving_up = Some (\<lambda>_ _ _. Returned (Some (Opaque ''permanent demo failure'')))"
    by (simp_all add: boom_def giving_up_def)
  ultimately show ?thesis
    using attempt_outcome(2) [of giving_up _ 0 boom 0 sample_store env "callback giving_up"]
    by (simp add: handler_result_def boom_job_def)
qed

lemma empty_id_left: "id_left empty_jobs"
  by (simp add: id_left_def empty_jobs_def in_int64_def)

theorem republish_resends_job_witness:
  "\<exists>a msg store s'. republish (\<lambda>_ _. None) (fst (add_job (\<lambda>t. t) empty_jobs boom_job)) demo_system 1 [] =
      (store, s', [(a, msg)], None) \<and> msg_Body msg = bytes_of ''fail:boom''"
proof -
  obtain store1 item where add: "add_job (\<lambda>t. t) empty_jobs boom_job = (store1, item)" by force
  have item: "sj_ID item = 1" using add_job_simps [OF add empty_id_left] by (simp add: empty_jobs_def)
  have q: "queueName giving_up = ''plain''" by (simp add: giving_up_def)
  obtain store2 s' sent r where p: "republish (\<lambda>_ _. None) store1 demo_system (sj_ID item) [] = (store2, s', sent, r)"
    by (metis prod_cases4)
  from republish_resends_job [OF boom_fails empty_jobs_ok empty_id_left add demo_ok _ _ p] show ?thesis
    using p by (auto simp: q demo_params add item boom_def)
qed

theorem failed_publish_loses_job_witness:
  "\<exists>store s' sent e. republish (\<lambda>_ _. Some (CtxErr Canceled)) (fst (add_job (\<lambda>t. t) empty_jobs boom_job)) demo_system 1 [] =
      (store, s', sent, Some e) \<and> job_at store 1 = None"
proof -
  obtain store1 item where add: "add_job (\<lambda>t. t) empty_jobs boom_job = (store1, item)" by force
  have item: "sj_ID item = 1" using add_job_simps [OF add empty_id_left] by (simp add: empty_jobs_def)
  note put = ms.put_law [OF empty_jobs_ok empty_id_left add]
  have found: "job_at store1 1 = Some item" using put item by simp
  obtain t p where pub: "Publish demo_system (sj_Queue item) = (t, p)" by force
  obtain store2 s' sent r where p: "republish (\<lambda>_ _. Some (CtxErr Canceled)) store1 demo_system 1 [] = (store2, s', sent, r)"
    by (metis prod_cases4)
  obtain e where e: "r = Some e"
    using republish_found [OF conjunct1 [OF put] found p pub] by (auto split: sum.splits)
  from failed_publish_loses_job [OF conjunct1 [OF put] found p [unfolded e]] show ?thesis
    using p e by (auto simp: add)
qed

section \<open>The endpoint and the channel\<close>

text \<open>
  \<open>POST /retry\<close> answers 400 to an ID that is not a positive integer and changes nothing, 404 to
  an unknown one, and 200 exactly when a publisher accepted the message; 404 is also the answer
  to a failed publish, which has removed the job.
\<close>

theorem retry_endpoint_answers:
  assumes "memory_ok store" "retry_endpoint quote push store s t = (store', s', sent, status, msg)"
  shows "case atoi t of
      Some i \<Rightarrow>
        if 0 < i then
          (case job_at store i of
             None \<Rightarrow> status = 404 \<and> store' = store \<and> sent = []
           | Some job \<Rightarrow> job_at store' = (job_at store)(i := None) \<and> status \<in> {200, 404} \<and>
               (status = 200 \<longleftrightarrow> (\<exists>a m. sent = [(a, m)] \<and> push a m = None)))
        else status = 400 \<and> store' = store \<and> s' = s \<and> sent = []
    | None \<Rightarrow> status = 400 \<and> store' = store \<and> s' = s \<and> sent = []"
proof (cases "\<exists>i. atoi t = Some i \<and> 0 < i")
  case False
  then show ?thesis using assms(2) by (cases "atoi t") (simp_all add: retry_endpoint_def)
next
  case True
  then obtain i where i: "atoi t = Some i" "0 < i" by blast
  obtain st u snt r where p: "republish push store s i [] = (st, u, snt, r)" by (metis prod_cases4)
  have res: "store' = st" "sent = snt" "status = (if r = None then 200 else 404)"
    using assms(2) i by (simp_all add: retry_endpoint_def p split: option.splits)
  show ?thesis
  proof (cases "job_at store i")
    case None
    obtain st' x where tk: "take_job i store = (st', x)" by force
    have "x = None" using ms.remove_law [OF assms(1) tk] None by simp
    then have "take_job i store = (store, None)" using tk by (auto simp: take_job_def split: option.splits)
    then have "st = store" "snt = []" "r \<noteq> None" using p by (auto simp: republish_def)
    then show ?thesis using i None by (simp add: res)
  next
    case job: (Some job)
    obtain v x where pub: "Publish s (sj_Queue job) = (v, x)" by force
    note f = republish_found [OF assms(1) job p pub]
    have ans: "(r = None) = (\<exists>a m. snt = [(a, m)] \<and> push a m = None)"
    proof (cases x)
      case (Inl e)
      then show ?thesis using f by simp
    next
      case (Inr a)
      then obtain m where "snt = [(a, m)]" "r = push a m" using f by auto
      then show ?thesis by simp
    qed
    have gone: "job_at st = (job_at store)(i := None)" using f by blast
    show ?thesis unfolding res using i job ans gone by simp
  qed
qed

text \<open>
  \<open>main\<close> receives once from \<open>stored\<close>, whose buffer holds eight: the calls of the fail handler
  return until the buffer is full, and the next one blocks for ever, with its delivery
  unsettled.
\<close>

fun fail_calls :: "(string \<Rightarrow> string) \<Rightarrow> failed_demo \<Rightarrow> failed_job list \<Rightarrow> bool" where
  "fail_calls quote st [] \<longleftrightarrow> True"
| "fail_calls quote st (job # jobs) \<longleftrightarrow>
     (case demo_fail_handler quote job st of
        (st', Some _) \<Rightarrow> fail_calls quote st' jobs
      | (st', None) \<Rightarrow> False)"

theorem stored_channel_fills:
  "length (demo_stored st) \<le> 8 \<Longrightarrow>
     fail_calls quote st jobs \<longleftrightarrow> length (demo_stored st) + length jobs \<le> 8"
  by (induction jobs arbitrary: st) (auto simp: demo_fail_handler_def Let_def split: prod.splits)

text \<open>The consumer never closes \<open>recovered\<close> twice.\<close>

theorem demo_consumer_never_panics:
  "recovered_closed st \<longrightarrow> recoveredOnce st \<Longrightarrow>
     (recovered_closed (fst (demo_consumer body st)) \<longrightarrow> recoveredOnce (fst (demo_consumer body st))) \<and>
     (\<exists>r. snd (demo_consumer body st) = Returned r)"
  by (auto simp: demo_consumer_def Let_def)

end
