(* ===== verification/ExampleHandlers.thy ===== *)
theory ExampleHandlers
  imports Examples
begin

text \<open>
  The handlers of the programs under \<open>examples/\<close> at work: the consumers that a setup leaves in the
  store, and what a series of deliveries to one of them does to the variables its closures share.
  A delivery goes through the library's \<open>handleDelivery\<close>, with the client and the store of the
  program, so a closure runs when the library calls it and its result is settled as the library does.
\<close>

section \<open>Closures\<close>

text \<open>
  The handler given to \<open>AddConsumer\<close> and the one given to \<open>WithFailHandler\<close>, as functions of the
  variables they share. \<open>None\<close>: the handler blocks.
\<close>

record 's closures =
  on_message :: "bytes \<Rightarrow> 's \<Rightarrow> ('s \<times> go_error option outcome) option"
  on_failure :: "failed_job \<Rightarrow> 's \<Rightarrow> 's \<times> go_error option option"

definition calls_handler :: "'c effect list \<Rightarrow> bool" where
  "calls_handler effs \<longleftrightarrow> list_ex (\<lambda>e. case e of Handle _ _ \<Rightarrow> True | _ \<Rightarrow> False) effs"

text \<open>
  One delivery: the client's callback and the store's fail handler, where they are there, are the
  two closures.
\<close>

definition deliver ::
  "'s closures \<Rightarrow> 'c queueStore \<Rightarrow> 'c \<Rightarrow> 'c client \<Rightarrow> delivery_env \<Rightarrow> amqp_delivery \<Rightarrow> 's \<Rightarrow>
     ('s \<times> 'c effect list) option" where
  "deliver cl queue loopCtx clnt env d st =
     (let called = on_message cl (delivery_Body d) st;
          st1 = (case called of None \<Rightarrow> st | Some (st, _) \<Rightarrow> st);
          out = (case called of None \<Rightarrow> Returned None | Some (_, out) \<Rightarrow> out);
          fail = (\<lambda>job. case on_failure cl job st1 of (_, None) \<Rightarrow> Returned None | (_, Some r) \<Rightarrow> Returned r);
          q = queue\<lparr>failJobHandler := map_option (\<lambda>_ _. fail) (failJobHandler queue)\<rparr>;
          effs = fst (handleDelivery q env loopCtx clnt (map_option (\<lambda>_ _ _ _. out) (callback clnt)) d)
      in if \<not> calls_handler effs \<or> callback clnt = None then Some (st, effs)
         else if called = None then None
         else (case fail_jobs effs of
                 [] \<Rightarrow> Some (st1, effs)
               | job # _ \<Rightarrow> (case on_failure cl job st1 of (_, None) \<Rightarrow> None | (st, Some _) \<Rightarrow> Some (st, effs))))"

fun deliver_all ::
  "'s closures \<Rightarrow> 'c queueStore \<Rightarrow> 'c \<Rightarrow> 'c client \<Rightarrow> (delivery_env \<times> amqp_delivery) list \<Rightarrow> 's \<Rightarrow>
     ('s \<times> 'c effect list list) option" where
  "deliver_all cl queue loopCtx clnt [] st = Some (st, [])"
| "deliver_all cl queue loopCtx clnt ((env, d) # ds) st =
     (case deliver cl queue loopCtx clnt env d st of
        None \<Rightarrow> None
      | Some (st, effs) \<Rightarrow> map_option (\<lambda>(st, rest). (st, effs # rest)) (deliver_all cl queue loopCtx clnt ds st))"

definition basic_closures :: "bool closures" where
  "basic_closures = \<lparr>on_message = (\<lambda>body st. Some (basic_handler body st)), on_failure = (\<lambda>job st. (st, Some None))\<rparr>"

definition retry_closures :: "retry_demo closures" where
  "retry_closures =
     \<lparr>on_message = (\<lambda>body st. map_option (\<lambda>(st, r). (st, Returned r)) (retry_handler body st)),
      on_failure = (\<lambda>job st. case retry_fail_handler job st of None \<Rightarrow> (st, None) | Some (st, r) \<Rightarrow> (st, Some r))\<rparr>"

definition failed_closures :: "(string \<Rightarrow> string) \<Rightarrow> failed_demo closures" where
  "failed_closures quote = \<lparr>on_message = (\<lambda>body st. Some (demo_consumer body st)), on_failure = demo_fail_handler quote\<rparr>"

section \<open>What a delivery does\<close>

text \<open>A consumer as the programs register it: with a handler, and the default extractor.\<close>

definition worker_ok :: "'c queueStore \<Rightarrow> 'c client \<Rightarrow> bool" where
  "worker_ok queue clnt \<longleftrightarrow>
     ConsumeHeadersExtractor clnt = Some (\<lambda>parent _. Returned parent) \<and> callback clnt \<noteq> None \<and>
     (withRetry clnt \<longrightarrow> failJobHandler queue \<noteq> None)"

fun failed_job_of :: "verdict \<Rightarrow> failed_job option" where
  "failed_job_of (Fail job) = Some job"
| "failed_job_of _ = None"

lemma deliver_verdict:
  assumes w: "worker_ok queue clnt" and m: "on_message cl (delivery_Body d) st = Some (st1, out)"
    and v: "v = verdict_of (withRetry clnt) (deadline_passed (env_now env) (delivery_Headers d)) (queueName clnt) (delivery_Body d) out"
  shows "\<exists>effs. settlements effs = settlements (verdict_effects v :: 'c effect list) \<and>
    deliver cl queue (loopCtx :: 'c) clnt env d st =
      (case failed_job_of v of
         None \<Rightarrow> Some (st1, effs)
       | Some job \<Rightarrow> (case on_failure cl job st1 of (_, None) \<Rightarrow> None | (st2, Some _) \<Rightarrow> Some (st2, effs)))"
proof -
  define fail where "fail = (\<lambda>job. case on_failure cl job st1 of (_, None) \<Rightarrow> Returned None | (_, Some r) \<Rightarrow> Returned r)"
  define q where "q = queue\<lparr>failJobHandler := map_option (\<lambda>_ _. fail) (failJobHandler queue)\<rparr>"
  define effs where "effs = fst (handleDelivery q env loopCtx clnt (map_option (\<lambda>_ _ _ _. out) (callback clnt)) d)"
  obtain cb where cb: "callback clnt = Some cb" using w by (auto simp: worker_ok_def)
  have "\<exists>r. fail job = Returned r" for job by (auto simp: fail_def split: prod.splits option.splits)
  then have ready: "fail_ready (failJobHandler q) clnt" using w by (auto simp: fail_ready_def q_def worker_ok_def)
  have "ConsumeHeadersExtractor clnt = Some (\<lambda>parent _. Returned parent)" using w by (simp add: worker_ok_def)
  from handleDelivery_visible [OF this refl ready] have vis: "filter visible effs =
      Extract loopCtx (amqpTableToMap (delivery_Headers d)) # Handle loopCtx (delivery_Body d) # verdict_effects v"
    by (simp add: effs_def cb v delivery_verdict_def handler_result_def)
  then have "Handle loopCtx (delivery_Body d) \<in> set effs" by (metis filter_is_subset list.set_intros(1,2) subsetD)
  then have called: "calls_handler effs" by (force simp: calls_handler_def list_ex_iff)
  have "settlements (filter visible effs) = settlements (verdict_effects v :: 'c effect list)"
    unfolding vis by (rule settlements_skip)
  moreover have "fail_jobs (filter visible effs) = (case failed_job_of v of None \<Rightarrow> [] | Some job \<Rightarrow> [job])"
    unfolding vis by (cases v) (simp_all add: fail_jobs_def)
  ultimately have "settlements effs = settlements (verdict_effects v :: 'c effect list)"
      "fail_jobs effs = (case failed_job_of v of None \<Rightarrow> [] | Some job \<Rightarrow> [job])"
    by (simp_all add: settlements_visible fail_jobs_visible)
  then show ?thesis
    using called by (auto simp: deliver_def m Let_def cb effs_def q_def fail_def split: option.splits)
qed

section \<open>The consumers of a program\<close>

text \<open>The consumer of a queue that a program registers one for.\<close>

definition worker :: "'c system \<Rightarrow> queue_name \<Rightarrow> 'c client" where
  "worker s name = client_at s (hd (consumers_of s name))"

definition staffed :: "(queue_name \<times> int \<times> 'c consumer_handler option) list \<Rightarrow> 'c system \<Rightarrow> bool" where
  "staffed regs s \<longleftrightarrow>
     (\<forall>name par cb. (name, par, cb) \<in> set regs \<longrightarrow>
        length (consumers_of s name) = copies par \<and>
        (\<forall>a \<in> set (consumers_of s name).
           callback (client_at s a) = cb \<and>
           ConsumeHeadersExtractor (client_at s a) = storeConsumeHeadersExtractor (sys_store s)))"

definition keeps_staff :: "'c system \<Rightarrow> 'c system \<Rightarrow> bool" where
  "keeps_staff s t \<longleftrightarrow>
     consumers (sys_store t) = consumers (sys_store s) \<and>
     storeConsumeHeadersExtractor (sys_store t) = storeConsumeHeadersExtractor (sys_store s) \<and>
     failJobHandler (sys_store t) = failJobHandler (sys_store s) \<and>
     (\<forall>a. same_identity (client_at s a) (client_at t a))"

lemma keeps_staff_refl [simp]: "keeps_staff s s"
  by (simp add: keeps_staff_def)

lemma keeps_staff_trans: "keeps_staff s t \<Longrightarrow> keeps_staff t u \<Longrightarrow> keeps_staff s u"
  unfolding keeps_staff_def by (metis same_identity_trans)

lemma staffed_kept: "keeps_staff s t \<Longrightarrow> staffed regs s \<Longrightarrow> staffed regs t"
  by (simp add: keeps_staff_def staffed_def consumers_of_def same_identity_def)

lemma put_keeps_staff: "same_identity (client_at s b) c \<Longrightarrow> keeps_staff s (put_client b c s)"
  by (cases "b < length (sys_clients s)") (auto simp: keeps_staff_def nth_list_update list_update_beyond)

lemma emit_keeps_staff [simp]: "keeps_staff s (emit es t) = keeps_staff s t"
  by (simp add: keeps_staff_def)

lemma ensureConnected_keeps_staff: "keeps_staff s (ensureConnected a s)"
  by (simp add: ensureConnected_def Let_def put_keeps_staff same_identity_def)

lemma Publish_keeps_staff: "keeps_staff s (fst (Publish s name))"
  by (simp add: Publish_def ensureConnected_keeps_staff split: option.splits)

lemma publish_all_keeps_staff: "keeps_staff s (fst (publish_all push msgs s))"
proof (induction push msgs s rule: publish_all.induct)
  case (2 push name msg msgs s)
  obtain t p where t: "Publish s name = (t, p)" by force
  have st: "keeps_staff s t" using Publish_keeps_staff [of s name] by (simp add: t)
  show ?case
  proof (cases p)
    case (Inr a)
    then show ?thesis
      using "2.IH" [OF t [symmetric] Inr] st keeps_staff_trans by (cases "push a msg") (simp_all add: t split_beta, blast)
  qed (simp add: t st)
qed simp

lemma InitConsumer_keeps_staff: "keeps_staff s (fst (InitConsumer s ctxErr))"
  by (simp add: InitConsumer_def snapshotConsumers_def InitConsumer_start_cases keeps_staff_def split: option.splits)

text \<open>\<open>AddConsumerN\<close> of several queues: each gets its own clients, and the ones before keep theirs.\<close>

lemma AddConsumerN_staff:
  assumes "AddConsumerN answers s ctx name par cb = (t, None)" "consumers (sys_store s) \<noteq> None" "consumers_of s name = []"
  shows "staffed [(name, par, cb)] t \<and> consumers (sys_store t) \<noteq> None \<and> (\<forall>n. n \<noteq> name \<longrightarrow> consumers_of t n = consumers_of s n) \<and>
    (\<forall>a \<in> set (consumers_of t name). a < length (sys_clients t)) \<and>
    take (length (sys_clients s)) (sys_clients t) = sys_clients s \<and>
    storeConsumeHeadersExtractor (sys_store t) = storeConsumeHeadersExtractor (sys_store s) \<and>
    failJobHandler (sys_store t) = failJobHandler (sys_store s)"
proof -
  have st: "\<not> consumersStarted (sys_store s)" using assms(1) AddConsumerN_refused(1) by fastforce
  then obtain p where p: "queue_param s name = Some p" using assms(1) AddConsumerN_refused(2) by fastforce
  note r = AddConsumerN_registers [OF st p assms(1)]
  have "consumers_of t n = (if n = name then [length (sys_clients s)..<length (sys_clients s) + copies par] else consumers_of s n)" for n
    by (simp add: consumers_of_def [of t] r(3) gm_put_get [OF assms(2)]) (use assms(3) in \<open>simp add: consumers_of_def\<close>)
  then show ?thesis
    using assms(2) by (auto simp: staffed_def r(2,3) nth_append consumer_client_def)
qed

lemma add_consumers_staff:
  "add_consumers answers ctx regs s = (s', None) \<Longrightarrow> consumers (sys_store s) \<noteq> None \<Longrightarrow> distinct (map fst regs) \<Longrightarrow>
     \<forall>n \<in> fst ` set regs. consumers_of s n = [] \<Longrightarrow>
     staffed regs s' \<and> (\<forall>n. n \<notin> fst ` set regs \<longrightarrow> consumers_of s' n = consumers_of s n) \<and>
     take (length (sys_clients s)) (sys_clients s') = sys_clients s \<and>
     storeConsumeHeadersExtractor (sys_store s') = storeConsumeHeadersExtractor (sys_store s) \<and>
     failJobHandler (sys_store s') = failJobHandler (sys_store s)"
proof (induction regs arbitrary: s)
  case Nil
  then show ?case by (simp add: staffed_def)
next
  case (Cons reg regs)
  obtain name par cb where reg: "reg = (name, par, cb)" by (metis prod_cases3)
  obtain t where t: "AddConsumerN answers s ctx name par cb = (t, None)" "add_consumers answers ctx regs t = (s', None)"
    using Cons.prems(1) by (auto simp: reg split: prod.splits option.splits)
  have "consumers_of s name = []" using Cons.prems(4) by (simp add: reg)
  note first = AddConsumerN_staff [OF t(1) Cons.prems(2) this]
  have name: "name \<notin> fst ` set regs" "distinct (map fst regs)" using Cons.prems(3) by (auto simp: reg)
  have "consumers_of t n = []" if "n \<in> fst ` set regs" for n
  proof -
    have "n \<noteq> name" "consumers_of s n = []" using that name(1) Cons.prems(4) by auto
    then show ?thesis using first by simp
  qed
  then have "\<forall>n \<in> fst ` set regs. consumers_of t n = []" by blast
  note rest = Cons.IH [OF t(2) conjunct1 [OF conjunct2 [OF first]] name(2) this]
  have len: "length (sys_clients s) \<le> length (sys_clients t)" using first by (metis length_take min.cobounded1 min.cobounded2)
  have old: "client_at s' a = client_at t a" if "a < length (sys_clients t)" for a
    using rest that by (metis nth_take)
  have "staffed [(name, par, cb)] s'"
    using first rest name(1) old by (auto simp: staffed_def)
  then have "staffed (reg # regs) s'" using rest by (auto simp: staffed_def reg)
  moreover have "take (length (sys_clients s)) (sys_clients s') = sys_clients s"
    using first rest len by (metis min.absorb1 take_take)
  ultimately show ?case using first rest by (auto simp: reg)
qed

text \<open>What a setup leaves: each queue has the consumers asked for, with their handler.\<close>

lemma run_program_staff:
  assumes "run_program answers ctx ctxErr push p = Inr (s, sent)" "distinct (map fst (prog_consumers p))"
  shows "staffed (prog_consumers p) s \<and>
    storeConsumeHeadersExtractor (sys_store s) = consumeHeadersExtractor (resolve_options (prog_options p)) \<and>
    failJobHandler (sys_store s) = failHandler (resolve_options (prog_options p))"
proof -
  let ?o = "resolve_options (prog_options p)"
  obtain s0 where new: "newQueueStore (prog_config p) (prog_options p) = Inr s0"
    using assms(1) by (auto simp: run_program_def New_def split: sum.splits)
  then obtain ps where s0: "sys_store s0 = (empty_store (prog_config p) ?o)\<lparr>publishers := ps\<rparr>"
    using newQueueStore_made [OF new] by (auto simp: made_from_def)
  obtain s1 r where r: "add_consumers answers ctx (prog_consumers p) s0 = (s1, r)" by force
  have "r = None" using assms(1) by (cases r) (simp_all add: run_program_def New_def new r)
  then have s1: "add_consumers answers ctx (prog_consumers p) s0 = (s1, None)" using r by simp
  have start: "consumers (sys_store s0) \<noteq> None" "\<forall>n \<in> fst ` set (prog_consumers p). consumers_of s0 n = []"
    "storeConsumeHeadersExtractor (sys_store s0) = consumeHeadersExtractor ?o" "failJobHandler (sys_store s0) = failHandler ?o"
    by (simp_all add: s0 empty_store_def consumers_of_def)
  note staff = add_consumers_staff [OF s1 start(1) assms(2) start(2), unfolded start(3,4)]
  let ?init = "if prog_consumers p = [] then (s1, None) else InitConsumer s1 ctxErr"
  have "keeps_staff s1 (fst ?init)" by (simp add: InitConsumer_keeps_staff)
  moreover have s: "s = fst (publish_all push (prog_messages p) (fst ?init))"
    using assms(1) by (auto simp: run_program_def New_def new s1 split: prod.splits option.splits)
  ultimately have kept: "keeps_staff s1 s"
    unfolding s using keeps_staff_trans [OF _ publish_all_keeps_staff] by blast
  then have "staffed (prog_consumers p) s" using staff staffed_kept by blast
  then show ?thesis using staff kept by (simp add: keeps_staff_def)
qed

lemma program_worker:
  assumes "run_program answers ctx ctxErr push p = Inr (s, sent)" "distinct (map fst (prog_consumers p))"
    and "(name, par, Some h) \<in> set (prog_consumers p)" "store_inv s" "queue_param s name = Some item"
    and "consumeHeadersExtractor (resolve_options (prog_options p)) = Some (\<lambda>parent _. Returned parent)"
    and "Retry_of item \<noteq> None \<longrightarrow> failHandler (resolve_options (prog_options p)) \<noteq> None"
  shows "worker_ok (sys_store s) (worker s name) \<and> queueName (worker s name) = name \<and>
    retry (worker s name) = Retry_of item"
proof -
  note staff = run_program_staff [OF assms(1,2)]
  have "consumers_of s name \<noteq> []"
    using staff assms(3) copies_pos [of par] unfolding staffed_def by (metis length_greater_0_conv)
  then have mem: "hd (consumers_of s name) \<in> set (consumers_of s name)" by simp
  have "consumer_ok s name (worker s name)"
    using assms(4) mem by (simp add: store_inv_def system_ok_def worker_def)
  moreover have "callback (worker s name) = Some h" "ConsumeHeadersExtractor (worker s name) = storeConsumeHeadersExtractor (sys_store s)"
    using staff assms(3) mem unfolding staffed_def worker_def by blast+
  ultimately show ?thesis
    using staff assms(5-7) by (auto simp: worker_ok_def consumer_ok_def withRetry_def)
qed

section \<open>retry: the three messages, in any order\<close>

abbreviation bodies :: "(delivery_env \<times> amqp_delivery) list \<Rightarrow> bytes list" where
  "bodies ds \<equiv> map (\<lambda>(env, d). delivery_Body d) ds"

definition in_time :: "(delivery_env \<times> amqp_delivery) list \<Rightarrow> bool" where
  "in_time ds \<longleftrightarrow> list_all (\<lambda>(env, d). \<not> deadline_passed (env_now env) (delivery_Headers d)) ds"

abbreviation ok_body :: bytes where "ok_body \<equiv> bytes_of ''ok''"
abbreviation retry_body :: bytes where "retry_body \<equiv> bytes_of ''retry-then-ok:job''"
abbreviation boom_body :: bytes where "boom_body \<equiv> bytes_of ''fail:boom''"

text \<open>The signals of a series of deliveries, of which \<open>n\<close> attempts at the second message came before.\<close>

definition third_attempt :: "nat \<Rightarrow> bytes list \<Rightarrow> nat" where
  "third_attempt n bs = (if n < 3 \<and> n + count_list bs retry_body = 3 then 1 else 0)"

definition signals_of :: "nat \<Rightarrow> bytes list \<Rightarrow> nat" where
  "signals_of n bs = count_list bs ok_body + count_list bs boom_body + third_attempt n bs"

lemma demo_bodies: "ok_body \<noteq> retry_body" "ok_body \<noteq> boom_body" "retry_body \<noteq> boom_body"
  "text_of ok_body = ''ok''" "text_of retry_body = ''retry-then-ok:job''" "text_of boom_body = ''fail:boom''"
  by (simp_all add: text_of_bytes, simp_all add: bytes_of_def)

lemma retry_handles:
  "on_message retry_closures ok_body st = map_option (\<lambda>st. (st, Returned None)) (signal_done st)"
  "on_message retry_closures boom_body st = Some (st, Returned (Some (Opaque ''permanent demo failure'')))"
  "n < 2 \<Longrightarrow> retryThenOKAttempts st = int n \<Longrightarrow> on_message retry_closures retry_body st =
     Some (st\<lparr>retryThenOKAttempts := int (Suc n)\<rparr>, Returned (Retry (Some (Opaque ''temporary failure''))))"
  "retryThenOKAttempts st = 2 \<Longrightarrow> on_message retry_closures retry_body st =
     map_option (\<lambda>st. (st, Returned None)) (signal_done (st\<lparr>retryThenOKAttempts := 3\<rparr>))"
  by (simp_all add: retry_closures_def retry_handler_def demo_bodies has_prefix_def Let_def in_int64_def
      option.map_comp comp_def)

lemma retry_delivery:
  fixes loopCtx :: 'c and queue :: "'c queueStore"
  assumes w: "worker_ok queue clnt" "withRetry clnt" and live: "\<not> deadline_passed (env_now env) (delivery_Headers d)"
  defines "got \<equiv> deliver retry_closures queue loopCtx clnt env d"
  shows "delivery_Body d = ok_body \<or> delivery_Body d = boom_body \<Longrightarrow> k < 3 \<Longrightarrow>
      \<exists>effs. got \<lparr>retryThenOKAttempts = int n, done_signals = k\<rparr> = Some (\<lparr>retryThenOKAttempts = int n, done_signals = Suc k\<rparr>, effs) \<and>
        \<not> dead_lettered effs"
    and "delivery_Body d = retry_body \<Longrightarrow> n < 2 \<Longrightarrow>
      \<exists>effs. got \<lparr>retryThenOKAttempts = int n, done_signals = k\<rparr> = Some (\<lparr>retryThenOKAttempts = int (Suc n), done_signals = k\<rparr>, effs) \<and>
        dead_lettered effs"
    and "delivery_Body d = retry_body \<Longrightarrow> k < 3 \<Longrightarrow>
      \<exists>effs. got \<lparr>retryThenOKAttempts = 2, done_signals = k\<rparr> = Some (\<lparr>retryThenOKAttempts = 3, done_signals = Suc k\<rparr>, effs) \<and>
        \<not> dead_lettered effs"
proof -
  note step = deliver_verdict [OF w(1) _ refl, of retry_closures d _ _ _ env loopCtx]
  have acked: "settlements [Settle (Ack False) :: 'c effect] = [Ack False]" by (simp add: settlements_def)
  show "\<exists>effs. got \<lparr>retryThenOKAttempts = int n, done_signals = k\<rparr> = Some (\<lparr>retryThenOKAttempts = int n, done_signals = Suc k\<rparr>, effs) \<and>
      \<not> dead_lettered effs" if "delivery_Body d = ok_body \<or> delivery_Body d = boom_body" "k < 3"
    using that(1)
  proof
    assume b: "delivery_Body d = ok_body"
    have "on_message retry_closures (delivery_Body d) \<lparr>retryThenOKAttempts = int n, done_signals = k\<rparr> =
        Some (\<lparr>retryThenOKAttempts = int n, done_signals = Suc k\<rparr>, Returned None)"
      using that(2) by (simp add: b retry_handles signal_done_def)
    from step [OF this] show ?thesis by (auto simp: got_def dead_lettered_def acked)
  next
    assume b: "delivery_Body d = boom_body"
    have "on_message retry_closures (delivery_Body d) \<lparr>retryThenOKAttempts = int n, done_signals = k\<rparr> =
        Some (\<lparr>retryThenOKAttempts = int n, done_signals = k\<rparr>, Returned (Some (Opaque ''permanent demo failure'')))"
      by (simp add: b retry_handles)
    from step [OF this] show ?thesis
      using w(2) that(2) by (auto simp: got_def dead_lettered_def settlements_def retry_closures_def retry_fail_handler_def signal_done_def)
  qed
  show "\<exists>effs. got \<lparr>retryThenOKAttempts = int n, done_signals = k\<rparr> = Some (\<lparr>retryThenOKAttempts = int (Suc n), done_signals = k\<rparr>, effs) \<and>
      dead_lettered effs" if b: "delivery_Body d = retry_body" "n < 2"
  proof -
    have "on_message retry_closures (delivery_Body d) \<lparr>retryThenOKAttempts = int n, done_signals = k\<rparr> =
        Some (\<lparr>retryThenOKAttempts = int (Suc n), done_signals = k\<rparr>, Returned (Retry (Some (Opaque ''temporary failure''))))"
      using retry_handles(3) [OF b(2), of "\<lparr>retryThenOKAttempts = int n, done_signals = k\<rparr>"] by (simp add: b(1))
    from step [OF this] show ?thesis using w(2) live by (auto simp: got_def dead_lettered_def settlements_def Retry_def)
  qed
  show "\<exists>effs. got \<lparr>retryThenOKAttempts = 2, done_signals = k\<rparr> = Some (\<lparr>retryThenOKAttempts = 3, done_signals = Suc k\<rparr>, effs) \<and>
      \<not> dead_lettered effs" if b: "delivery_Body d = retry_body" "k < 3"
  proof -
    have "on_message retry_closures (delivery_Body d) \<lparr>retryThenOKAttempts = 2, done_signals = k\<rparr> =
        Some (\<lparr>retryThenOKAttempts = 3, done_signals = Suc k\<rparr>, Returned None)"
      using b(2) by (simp add: b(1) retry_handles signal_done_def)
    from step [OF this] show ?thesis by (auto simp: got_def dead_lettered_def acked)
  qed
qed

text \<open>One delivery of the three, with the counts of all that is still to come.\<close>

lemma retry_step:
  assumes "worker_ok queue clnt" "withRetry clnt" "\<not> deadline_passed (env_now env) (delivery_Headers d)"
    and "delivery_Body d \<in> {ok_body, retry_body, boom_body}"
    and "n + count_list (delivery_Body d # bs) retry_body \<le> 3" "k + signals_of n (delivery_Body d # bs) \<le> 3"
  shows "\<exists>n' k' effs. deliver retry_closures queue loopCtx clnt env d \<lparr>retryThenOKAttempts = int n, done_signals = k\<rparr> =
        Some (\<lparr>retryThenOKAttempts = int n', done_signals = k'\<rparr>, effs) \<and>
      n' + count_list bs retry_body = n + count_list (delivery_Body d # bs) retry_body \<and>
      k' + signals_of n' bs = k + signals_of n (delivery_Body d # bs) \<and>
      (if dead_lettered effs then 1 else 0) + count_list bs retry_body + third_attempt n (delivery_Body d # bs) =
        count_list (delivery_Body d # bs) retry_body + third_attempt n' bs"
proof -
  consider "delivery_Body d = ok_body \<or> delivery_Body d = boom_body" | "delivery_Body d = retry_body" "n < 2" |
    "delivery_Body d = retry_body" "n = 2"
    using assms(4,5) by (fastforce split: if_splits)
  then show ?thesis
  proof cases
    case 1
    then have "k < 3" using assms(6) demo_bodies(1-3) by (auto simp: signals_of_def third_attempt_def split: if_splits)
    from retry_delivery(1) [OF assms(1-3) 1 this] 1 show ?thesis
      using demo_bodies(1-3) by (fastforce simp: signals_of_def third_attempt_def split: if_splits)
  next
    case 2
    from retry_delivery(2) [OF assms(1-3) 2] 2 show ?thesis
      using demo_bodies(1-3) by (fastforce simp: signals_of_def third_attempt_def split: if_splits)
  next
    case 3
    then have "k < 3" "count_list bs retry_body = 0"
      using assms(5,6) demo_bodies(1-3) by (auto simp: signals_of_def third_attempt_def split: if_splits)
    with retry_delivery(3) [OF assms(1-3) 3(1)] 3 show ?thesis
      using demo_bodies(1-3) by (fastforce simp: signals_of_def third_attempt_def split: if_splits)
  qed
qed

lemma retry_series:
  assumes "worker_ok queue clnt" "withRetry clnt"
  shows "in_time ds \<Longrightarrow> set (bodies ds) \<subseteq> {ok_body, retry_body, boom_body} \<Longrightarrow>
    n + count_list (bodies ds) retry_body \<le> 3 \<Longrightarrow> k + signals_of n (bodies ds) \<le> 3 \<Longrightarrow>
    \<exists>effss. deliver_all retry_closures queue loopCtx clnt ds \<lparr>retryThenOKAttempts = int n, done_signals = k\<rparr> =
        Some (\<lparr>retryThenOKAttempts = int (n + count_list (bodies ds) retry_body), done_signals = k + signals_of n (bodies ds)\<rparr>, effss) \<and>
      length (filter dead_lettered effss) + third_attempt n (bodies ds) = count_list (bodies ds) retry_body"
proof (induction ds arbitrary: n k)
  case Nil
  then show ?case by (simp add: signals_of_def third_attempt_def)
next
  case (Cons x ds)
  obtain env d where x: "x = (env, d)" by force
  let ?st = "\<lparr>retryThenOKAttempts = int n, done_signals = k\<rparr>"
  have bs: "bodies (x # ds) = delivery_Body d # bodies ds" by (simp add: x)
  have live: "\<not> deadline_passed (env_now env) (delivery_Headers d)" "in_time ds"
    using Cons.prems(1) by (simp_all add: in_time_def x)
  have "delivery_Body d \<in> {ok_body, retry_body, boom_body}" using Cons.prems(2) by (simp add: x)
  from retry_step [OF assms live(1) this Cons.prems(3,4) [unfolded bs]]
  obtain n' k' effs where one:
      "deliver retry_closures queue loopCtx clnt env d ?st = Some (\<lparr>retryThenOKAttempts = int n', done_signals = k'\<rparr>, effs)"
      "n' + count_list (bodies ds) retry_body = n + count_list (bodies (x # ds)) retry_body"
      "k' + signals_of n' (bodies ds) = k + signals_of n (bodies (x # ds))"
      "(if dead_lettered effs then 1 else 0) + count_list (bodies ds) retry_body + third_attempt n (bodies (x # ds)) =
        count_list (bodies (x # ds)) retry_body + third_attempt n' (bodies ds)"
    unfolding bs by blast
  have "set (bodies ds) \<subseteq> {ok_body, retry_body, boom_body}" "n' + count_list (bodies ds) retry_body \<le> 3" "k' + signals_of n' (bodies ds) \<le> 3"
    using Cons.prems(2-4) one(2,3) by (simp_all add: x)
  then obtain effss where rest: "deliver_all retry_closures queue loopCtx clnt ds \<lparr>retryThenOKAttempts = int n', done_signals = k'\<rparr> =
        Some (\<lparr>retryThenOKAttempts = int (n' + count_list (bodies ds) retry_body), done_signals = k' + signals_of n' (bodies ds)\<rparr>, effss)"
      "length (filter dead_lettered effss) + third_attempt n' (bodies ds) = count_list (bodies ds) retry_body"
    using Cons.IH [OF live(2), of n' k'] by blast
  have "deliver_all retry_closures queue loopCtx clnt (x # ds) ?st =
      Some (\<lparr>retryThenOKAttempts = int (n + count_list (bodies (x # ds)) retry_body), done_signals = k + signals_of n (bodies (x # ds))\<rparr>, effs # effss)"
    unfolding one(2,3) [symmetric] by (simp add: x one(1) rest(1))
  moreover have "length (filter dead_lettered (effs # effss)) + third_attempt n (bodies (x # ds)) = count_list (bodies (x # ds)) retry_body"
    using one(4) rest(2) by (cases "dead_lettered effs") simp_all
  ultimately show ?case by blast
qed

text \<open>
  In whatever order the three messages come, with the two redeliveries of the second: they send
  three signals, no handler blocks, and exactly two deliveries are dead-lettered, so that the
  broker has nothing more to bring.
\<close>

definition retry_bodies :: "bytes list" where
  "retry_bodies = map bytes_of [''ok'', ''retry-then-ok:job'', ''retry-then-ok:job'', ''retry-then-ok:job'', ''fail:boom'']"

lemma retry_all:
  assumes "worker_ok queue clnt" "withRetry clnt" "in_time ds" "mset (bodies ds) = mset retry_bodies"
  shows "\<exists>effss. deliver_all retry_closures queue loopCtx clnt ds \<lparr>retryThenOKAttempts = 0, done_signals = 0\<rparr> =
      Some (\<lparr>retryThenOKAttempts = 3, done_signals = 3\<rparr>, effss) \<and> length (filter dead_lettered effss) = 2"
proof -
  have "count_list (bodies ds) b = count_list retry_bodies b" for b using assms(4) by (metis count_mset)
  then have n: "count_list (bodies ds) retry_body = 3" "signals_of 0 (bodies ds) = 3" "third_attempt 0 (bodies ds) = 1"
    using demo_bodies(1-3) by (simp_all add: signals_of_def third_attempt_def retry_bodies_def)
  have "set (bodies ds) \<subseteq> {ok_body, retry_body, boom_body}"
    using mset_eq_setD [OF assms(4)] by (auto simp: retry_bodies_def)
  then show ?thesis using retry_series [OF assms(1-3), of 0 0 loopCtx] by (simp add: n)
qed

section \<open>multiple-consumers: the ninth job\<close>

text \<open>While both counters stand at their goal and \<open>finished\<close> is open, some worker is in \<open>mark\<close>.\<close>

definition mark_goes_on :: "mark_state \<Rightarrow> bool" where
  "mark_goes_on s \<longleftrightarrow>
     (emailsDone s = 8 \<and> smsDone s = 1 \<and> \<not> finished s \<longrightarrow> (\<exists>w. at_pc s w \<in> {LoadEmails, LoadSms, Select, Close}))"

lemma mark_goes_on_step: "mark w s = Some t \<Longrightarrow> mark_goes_on s \<Longrightarrow> mark_goes_on t \<and> emailsDone t = emailsDone s \<and> smsDone t = smsDone s"
  by (cases "at_pc s w") (auto simp: mark_def mark_goes_on_def goes_to_def emailJobs_def split: if_splits)

lemma mark_finishes:
  "mark_run es s = Some t \<Longrightarrow> jobs_of es = (x, y) \<Longrightarrow> 0 \<le> emailsDone s \<Longrightarrow> 0 \<le> smsDone s \<Longrightarrow>
     emailsDone s + int x \<le> 8 \<Longrightarrow> smsDone s + int y \<le> 1 \<Longrightarrow> mark_goes_on s \<Longrightarrow>
     mark_goes_on t \<and> emailsDone t = emailsDone s + int x \<and> smsDone t = smsDone s + int y"
proof (induction es arbitrary: s x y)
  case Nil
  then show ?case by (simp add: jobs_of_def)
next
  case (Cons e es)
  obtain u where u: "mark_exec e s = Some u" "mark_run es u = Some t" using Cons.prems(1) by (auto split: option.splits)
  show ?case
  proof (cases e)
    case (EmailDone w)
    obtain x' where x': "x = Suc x'" "jobs_of es = (x', y)" using Cons.prems(2) by (auto simp: EmailDone jobs_of_def)
    have v: "u = goes_to w LoadEmails (s\<lparr>emailsDone := emailsDone s + 1\<rparr>)"
      using u(1) Cons.prems(3,5) by (simp add: EmailDone x'(1) in_int64_def split: if_splits)
    have "mark_goes_on u" unfolding v goes_to_def mark_goes_on_def by (auto intro: exI [of _ w])
    then show ?thesis
      using Cons.IH [OF u(2) x'(2)] Cons.prems(3-6) by (simp add: x'(1) v goes_to_def)
  next
    case (SmsDone w)
    obtain y' where y': "y = Suc y'" "jobs_of es = (x, y')" using Cons.prems(2) by (auto simp: SmsDone jobs_of_def)
    have v: "u = goes_to w LoadEmails (s\<lparr>smsDone := smsDone s + 1\<rparr>)"
      using u(1) Cons.prems(4,6) by (simp add: SmsDone y'(1) in_int64_def split: if_splits)
    have "mark_goes_on u" unfolding v goes_to_def mark_goes_on_def by (auto intro: exI [of _ w])
    then show ?thesis
      using Cons.IH [OF u(2) y'(2)] Cons.prems(3-6) by (simp add: y'(1) v goes_to_def)
  next
    case (Mark w)
    have "jobs_of es = (x, y)" using Cons.prems(2) by (simp add: Mark jobs_of_def)
    then show ?thesis
      using Cons.IH [OF u(2)] mark_goes_on_step [of w s u] u(1) Cons.prems(3-7) by (simp add: Mark)
  qed
qed

text \<open>So when the nine jobs are done and no worker is in \<open>mark\<close> any more, \<open>finished\<close> is closed.\<close>

definition at_rest :: "mark_state \<Rightarrow> bool" where
  "at_rest s \<longleftrightarrow> (\<forall>w. at_pc s w = Idle \<or> at_pc s w = Panic)"

lemma nine_jobs_finish:
  assumes "mark_run es mark_start = Some t" "jobs_of es = (8, 1)" "at_rest t"
  shows "finished t"
proof -
  have "mark_goes_on t \<and> emailsDone t = 8 \<and> smsDone t = 1"
    using mark_finishes [OF assms(1,2)] by (simp add: mark_start_def mark_goes_on_def)
  moreover have "at_pc t w \<notin> {LoadEmails, LoadSms, Select, Close}" for w
    using assms(3) unfolding at_rest_def by (cases "at_pc t w") (auto dest: spec [of _ w])
  ultimately show ?thesis unfolding mark_goes_on_def by blast
qed

section \<open>graceful-shutdown: the counters\<close>

record shutdown_demo =
  sd_started :: int
  sd_finished :: int

text \<open>What a handler does to them: it counts itself, sleeps, and counts itself again.\<close>

datatype handler_event = HStart | HFinish

fun shutdown_handler :: "handler_event \<Rightarrow> shutdown_demo \<Rightarrow> shutdown_demo" where
  "shutdown_handler HStart st = st\<lparr>sd_started := int64 (sd_started st + 1)\<rparr>"
| "shutdown_handler HFinish st = st\<lparr>sd_finished := int64 (sd_finished st + 1)\<rparr>"

definition no_handlers :: shutdown_demo where
  "no_handlers = \<lparr>sd_started = 0, sd_finished = 0\<rparr>"

lemma int64_Suc: "int64 (int64 x + 1) = int64 (x + 1)"
  by (simp add: int64_def mod_simps algebra_simps)

end
