(* ===== verification/ExampleMains.thy ===== *)
theory ExampleMains
  imports ExampleHandlers
begin

text \<open>
  The \<open>main\<close> functions of the programs under \<open>examples/\<close> from start to end: the setup of Examples,
  what each waits for, and the deferred \<open>shutdown\<close>, which \<open>os.Exit\<close> skips. The arguments of a \<open>main\<close>
  are what the broker delivers to its consumers before each of its waits goes on and whether the
  signal context is done then; what it waits for is what its handlers (ExampleHandlers) have left
  by that time. A result is a list of the endings possible then, an empty one when \<open>main\<close> waits on
  or a handler blocks. Logging, the deadline of \<open>shutdown\<close> and the HTTP server of \<open>failed-jobs\<close> are
  left out; the last answers requests with \<open>http_answer\<close>.
\<close>

section \<open>The parts they share\<close>

text \<open>
  What a \<open>main\<close> finds outside: the environment variable, the logger, the answers of the library,
  the signal context, the results of \<open>push\<close>, and what the deferred \<open>shutdown\<close> meets.
\<close>

record main_env =
  me_url :: string
  me_logger :: logger
  me_answers :: close_answers
  me_ctx :: ctx_id
  me_ctxErr :: "ctx_error option"
  me_push :: "addr \<Rightarrow> publish_message \<Rightarrow> go_error option"
  me_shutdown :: shutdown_env

datatype wait_end = Finished | Interrupted

datatype 'c main_end =
    Exit_1
  | Main_returned wait_end "'c system"

definition set_up :: "main_env \<Rightarrow> 'c program \<Rightarrow> go_error + 'c system \<times> (addr \<times> publish_message) list" where
  "set_up e p = run_program (me_answers e) (me_ctx e) (me_ctxErr e) (me_push e) p"

text \<open>The helper \<open>shutdown\<close>: an error of \<open>Shutdown\<close> is only logged.\<close>

definition deferred_shutdown :: "main_env \<Rightarrow> 'c system \<Rightarrow> 'c system" where
  "deferred_shutdown e s = fst (Shutdown (me_shutdown e) s)"

definition main_returns :: "main_env \<Rightarrow> 'c system \<Rightarrow> wait_end \<Rightarrow> 'c main_end" where
  "main_returns e s how = Main_returned how (deferred_shutdown e s)"

text \<open>The \<open>select\<close> on a channel and the signal context.\<close>

definition await :: "bool \<Rightarrow> bool \<Rightarrow> wait_end list" where
  "await ready ctxDone = select [(ready, Finished), (ctxDone, Interrupted)]"

section \<open>The programs\<close>

text \<open>
  \<open>handler\<close> and \<open>fail\<close> are the function values the store holds; what they do when the library calls
  them is said by the closures.
\<close>

definition basic_main ::
  "main_env \<Rightarrow> 'c consumer_handler \<Rightarrow> 'c \<Rightarrow> (delivery_env \<times> amqp_delivery) list \<Rightarrow> bool \<Rightarrow> 'c main_end list" where
  "basic_main e handler loopCtx ds ctxDone =
     (case set_up e (basic_program (me_url e) (me_logger e) handler) of
        Inl err \<Rightarrow> [Exit_1]
      | Inr (s, sent) \<Rightarrow>
          (case deliver_all basic_closures (sys_store s) loopCtx (worker s ''example.basic'') ds False of
             None \<Rightarrow> []
           | Some (got, effss) \<Rightarrow> map (main_returns e s) (await got ctxDone)))"

text \<open>The five workers of \<open>multiple-consumers\<close> run at the same time, in the steps of their handlers.\<close>

definition multiple_main ::
  "main_env \<Rightarrow> 'c consumer_handler \<Rightarrow> 'c consumer_handler \<Rightarrow> mark_event list \<Rightarrow> bool \<Rightarrow> 'c main_end list" where
  "multiple_main e emails sms es ctxDone =
     (case set_up e (multiple_program (me_url e) (me_logger e) emails sms) of
        Inl err \<Rightarrow> [Exit_1]
      | Inr (s, sent) \<Rightarrow>
          (case mark_run es mark_start of
             None \<Rightarrow> []
           | Some st \<Rightarrow> map (main_returns e s) (await (finished st) ctxDone)))"

text \<open>The loop over three signals; each round with what is delivered before its \<open>select\<close> goes on.\<close>

fun await_signals ::
  "('d \<Rightarrow> retry_demo \<Rightarrow> retry_demo option) \<Rightarrow> nat \<Rightarrow> ('d \<times> bool) list \<Rightarrow> retry_demo \<Rightarrow> wait_end list" where
  "await_signals handle 0 rounds st = [Finished]"
| "await_signals handle (Suc n) [] st = []"
| "await_signals handle (Suc n) ((ds, ctxDone) # rounds) st =
     (case handle ds st of
        None \<Rightarrow> []
      | Some st \<Rightarrow>
          concat (map (\<lambda>how.
            (case how of
               Interrupted \<Rightarrow> [Interrupted]
             | Finished \<Rightarrow> await_signals handle n rounds (st\<lparr>done_signals := done_signals st - 1\<rparr>)))
            (await (0 < done_signals st) ctxDone)))"

definition retry_main ::
  "main_env \<Rightarrow> fail_job_handler \<Rightarrow> 'c consumer_handler \<Rightarrow> 'c \<Rightarrow> ((delivery_env \<times> amqp_delivery) list \<times> bool) list \<Rightarrow>
     'c main_end list" where
  "retry_main e fail handler loopCtx rounds =
     (case set_up e (retry_program (me_url e) (me_logger e) fail handler) of
        Inl err \<Rightarrow> [Exit_1]
      | Inr (s, sent) \<Rightarrow>
          map (main_returns e s)
            (await_signals
               (\<lambda>ds st. map_option fst (deliver_all retry_closures (sys_store s) loopCtx (worker s ''example.retry'') ds st))
               3 rounds \<lparr>retryThenOKAttempts = 0, done_signals = 0\<rparr>))"

text \<open>
  The four goroutines of \<open>publisher-confirms\<close>, in the order in which they get to run; the results
  are only logged, and \<open>wg.Wait\<close> waits for all of them.
\<close>

definition par_messages :: "(queue_name \<times> publish_message) list" where
  "par_messages = map (\<lambda>body. (''example.confirms'', body_message body)) (numbered ''par-'' 4)"

fun publish_each ::
  "(addr \<Rightarrow> publish_message \<Rightarrow> go_error option) \<Rightarrow> (queue_name \<times> publish_message) list \<Rightarrow> 'c system \<Rightarrow>
     'c system \<times> go_error option list" where
  "publish_each push [] s = (s, [])"
| "publish_each push ((name, msg) # msgs) s =
     (case Publish s name of
        (s, p) \<Rightarrow>
          (case publish_each push msgs s of
             (s, rs) \<Rightarrow> (s, (case p of Inl err \<Rightarrow> Some err | Inr a \<Rightarrow> push a msg) # rs)))"

definition confirms_main :: "main_env \<Rightarrow> nat list \<Rightarrow> 'c main_end" where
  "confirms_main e order =
     (case set_up e (confirms_program (me_url e) (me_logger e)) of
        Inl err \<Rightarrow> Exit_1
      | Inr (s, sent) \<Rightarrow>
          (case publish_each (me_push e) (map (\<lambda>i. par_messages ! i) order) s of
             (s, pubErrs) \<Rightarrow> main_returns e s Finished))"

text \<open>
  \<open>graceful-shutdown\<close> calls \<open>Shutdown\<close> itself, and then again in the deferred function. Each round of
  \<open>waitStarted\<close> comes with what the handlers have done before it loads the counter.
\<close>

fun observe :: "shutdown_demo \<Rightarrow> (handler_event list \<times> wait_branch) list \<Rightarrow> (int \<times> wait_branch) list" where
  "observe st [] = []"
| "observe st ((es, branch) # rounds) =
     (let st = fold shutdown_handler es st in (sd_started st, branch) # observe st rounds)"

definition graceful_main ::
  "main_env \<Rightarrow> 'c consumer_handler \<Rightarrow> (handler_event list \<times> wait_branch) list \<Rightarrow> shutdown_env \<Rightarrow> 'c main_end list" where
  "graceful_main e handler rounds env =
     (case set_up e (shutdown_program (me_url e) (me_logger e) handler) of
        Inl err \<Rightarrow> [Exit_1]
      | Inr (s, sent) \<Rightarrow>
          (case waitStarted 2 (observe no_handlers rounds) of
             None \<Rightarrow> []
           | Some False \<Rightarrow> [main_returns e s Interrupted]
           | Some True \<Rightarrow>
               (case Shutdown env s of
                  (s, results) \<Rightarrow>
                    map (\<lambda>r. case r of Some err \<Rightarrow> Exit_1 | None \<Rightarrow> main_returns e s Finished) results)))"

text \<open>
  \<open>failed-jobs\<close> between its two waits: the job received from \<open>stored\<close> is republished with a body
  the handler accepts. \<open>None\<close>: nothing has been stored yet.
\<close>

definition failed_resume ::
  "(addr \<Rightarrow> publish_message \<Rightarrow> go_error option) \<Rightarrow> failed_demo \<Rightarrow> 'c system \<Rightarrow>
     (failed_demo \<times> 'c system \<times> (addr \<times> publish_message) list \<times> go_error option) option" where
  "failed_resume push st s =
     (case demo_stored st of
        [] \<Rightarrow> None
      | job # rest \<Rightarrow>
          (case republish push (demo_store st) s (sj_ID job) (bytes_of ''hello-from-retry'') of
             (store, s, sent, r) \<Rightarrow> Some (st\<lparr>demo_store := store, demo_stored := rest\<rparr>, s, sent, r)))"

definition demo_begin :: failed_demo where
  "demo_begin = \<lparr>demo_store = empty_jobs, demo_stored = [], recoveredOnce = False, recovered_closed = False\<rparr>"

definition failed_main ::
  "main_env \<Rightarrow> (string \<Rightarrow> string) \<Rightarrow> fail_job_handler \<Rightarrow> 'c consumer_handler \<Rightarrow> 'c \<Rightarrow>
     (delivery_env \<times> amqp_delivery) list \<Rightarrow> bool \<Rightarrow> (delivery_env \<times> amqp_delivery) list \<Rightarrow> bool \<Rightarrow> 'c main_end list" where
  "failed_main e quote fail handler loopCtx ds ctxDone ds' ctxDone' =
     (case set_up e (failed_program (me_url e) (me_logger e) fail handler) of
        Inl err \<Rightarrow> [Exit_1]
      | Inr (s, sent) \<Rightarrow>
          (let handle = (\<lambda>s. deliver_all (failed_closures quote) (sys_store s) loopCtx (worker s ''example.failed-jobs''))
           in case handle s ds demo_begin of
                None \<Rightarrow> []
              | Some (st, effss) \<Rightarrow>
                  concat (map (\<lambda>how.
                    (case how of
                       Interrupted \<Rightarrow> [main_returns e s Interrupted]
                     | Finished \<Rightarrow>
                         (case failed_resume (me_push e) st s of
                            None \<Rightarrow> []
                          | Some (st, s, sent, Some err) \<Rightarrow> [Exit_1]
                          | Some (st, s, sent, None) \<Rightarrow>
                              (case handle s ds' st of
                                 None \<Rightarrow> []
                               | Some (st, effss) \<Rightarrow> map (main_returns e s) (await (recovered_closed st) ctxDone')))))
                    (await (demo_stored st \<noteq> []) ctxDone))))"

section \<open>The routes of failed-jobs\<close>

datatype http_body = Text string | JobList "storedJob list"

text \<open>
  \<open>startHTTP\<close>: the two routes it registers, with the query parameter \<open>id\<close>. Any other request is
  the mux's to answer (\<open>None\<close>); a pattern for GET also matches HEAD.
\<close>

definition http_answer ::
  "(string \<Rightarrow> string) \<Rightarrow> (addr \<Rightarrow> publish_message \<Rightarrow> go_error option) \<Rightarrow> string \<Rightarrow> string \<Rightarrow> string \<Rightarrow>
     memoryStore \<Rightarrow> 'c system \<Rightarrow> (memoryStore \<times> 'c system \<times> (addr \<times> publish_message) list \<times> nat \<times> http_body) option" where
  "http_answer quote push meth path id_param store s =
     (if (meth = ''GET'' \<or> meth = ''HEAD'') \<and> path = ''/failed'' then Some (store, s, [], 200, JobList (list_jobs store))
      else if meth = ''POST'' \<and> path = ''/retry'' then
        (case retry_endpoint quote push store s id_param of
           (store, s, sent, status, msg) \<Rightarrow> Some (store, s, sent, status, Text msg))
      else None)"

section \<open>The store stays consistent\<close>

lemma add_consumers_inv:
  "store_inv s \<Longrightarrow> add_consumers answers ctx regs s = (s', r) \<Longrightarrow> store_inv s'"
proof (induction answers ctx regs s rule: add_consumers.induct)
  case (2 answers ctx name par cb regs s)
  obtain t err where t: "AddConsumerN answers s ctx name par cb = (t, err)" by force
  have ok: "system_ok s" using "2.prems"(1) by (simp add: store_inv_def)
  have "store_inv t"
    using AddConsumerN_ok [OF ok, of answers ctx name par cb] loops_AddConsumerN [OF ok, of answers ctx name par cb] "2.prems"(1)
    by (simp add: t store_inv_def)
  then show ?case using "2.IH" [OF t [symmetric]] "2.prems"(2) by (auto simp: t split: option.splits)
qed simp

lemma Publish_inv: "store_inv s \<Longrightarrow> store_inv (fst (Publish s name))"
  using Publish_ok [of s name] loops_Publish [of s name] by (simp add: store_inv_def)

lemma publish_all_inv: "store_inv s \<Longrightarrow> store_inv (fst (publish_all push msgs s))"
proof (induction push msgs s rule: publish_all.induct)
  case (2 push name msg msgs s)
  obtain t p where t: "Publish s name = (t, p)" by force
  have inv: "store_inv t" using Publish_inv [OF "2.prems", of name] by (simp add: t)
  show ?case
  proof (cases p)
    case (Inr a)
    then show ?thesis
      using "2.IH" [OF t [symmetric] Inr _ inv] inv by (cases "push a msg") (simp_all add: t split_beta)
  qed (simp add: t inv)
qed simp

lemma publish_each_inv: "store_inv s \<Longrightarrow> store_inv (fst (publish_each push msgs s))"
proof (induction push msgs s rule: publish_each.induct)
  case (2 push name msg msgs s)
  obtain t p where t: "Publish s name = (t, p)" by force
  have "store_inv t" using Publish_inv [OF "2.prems", of name] by (simp add: t)
  then show ?case using "2.IH" [OF t [symmetric]] by (simp add: t split_beta)
qed simp

lemma InitConsumer_inv: "store_inv s \<Longrightarrow> store_inv (fst (InitConsumer s ctxErr))"
  using InitConsumer_ok [of s ctxErr] loops_InitConsumer [of s ctxErr] by (simp add: store_inv_def)

lemma set_up_inv:
  assumes "program_ok p" "set_up e p = Inr (s, sent)"
  shows "store_inv s"
proof -
  obtain s0 where new: "New (prog_config p) (prog_options p) = Inr s0"
    using assms(2) by (auto simp: set_up_def run_program_def split: sum.splits)
  then have inv0: "store_inv s0"
    using newQueueStore_inv [of "prog_config p" "prog_options p" s0] assms(1) by (simp add: New_def program_ok_def split: sum.splits)
  obtain s1 r1 where s1: "add_consumers (me_answers e) (me_ctx e) (prog_consumers p) s0 = (s1, r1)" by force
  have inv1: "store_inv s1" by (rule add_consumers_inv [OF inv0 s1])
  let ?init = "if prog_consumers p = [] then (s1, None) else InitConsumer s1 (me_ctxErr e)"
  have inv2: "store_inv (fst ?init)" using inv1 by (simp add: InitConsumer_inv)
  have "s = fst (publish_all (me_push e) (prog_messages p) (fst ?init))"
    using assms(2) by (auto simp: set_up_def run_program_def new s1 split: prod.splits option.splits)
  then show ?thesis using publish_all_inv [OF inv2] by simp
qed

definition all_shut :: "'c system \<Rightarrow> bool" where
  "all_shut s \<longleftrightarrow> (\<forall>a n. publisher_of s n = Some a \<or> a \<in> set (consumers_of s n) \<longrightarrow> closeOnce (client_at s a))"

lemma Shutdown_shuts: "system_ok s \<Longrightarrow> all_shut (fst (Shutdown env s))"
proof -
  assume ok: "system_ok s"
  have "publisher_of (fst (Shutdown env s)) = publisher_of s" "consumers_of (fst (Shutdown env s)) = consumers_of s"
    using Shutdown_state [OF ok, of env] by (simp_all add: publisher_of_def consumers_of_def fun_eq_iff)
  then show ?thesis
    unfolding all_shut_def using Shutdown_client [OF ok, of _ env] by (metis client_close.shuts)
qed

definition shut_down :: "'c main_end \<Rightarrow> bool" where
  "shut_down x \<longleftrightarrow> (case x of Exit_1 \<Rightarrow> True | Main_returned how s \<Rightarrow> all_shut s)"

lemma main_returns_shut: "system_ok s \<Longrightarrow> shut_down (main_returns e s how)"
  by (simp add: shut_down_def main_returns_def deferred_shutdown_def Shutdown_shuts)

lemma exit_shut: "shut_down Exit_1"
  by (simp add: shut_down_def)

lemma program_inv: "program_ok p \<Longrightarrow> set_up e p = Inr (s, sent) \<Longrightarrow> system_ok s"
  using set_up_inv by (fastforce simp: store_inv_def)

lemma confirms_shut: "shut_down (confirms_main e order :: 'c main_end)"
proof (cases "set_up e (confirms_program (me_url e) (me_logger e)) :: go_error + 'c system \<times> (addr \<times> publish_message) list")
  case (Inr r)
  obtain s sent where r: "r = (s, sent)" by force
  have "store_inv s" using set_up_inv [OF example_programs_ok(2)] Inr r by blast
  then have "store_inv (fst (publish_each (me_push e) (map (\<lambda>i. par_messages ! i) order) s))" by (rule publish_each_inv)
  then show ?thesis using Inr by (simp add: confirms_main_def r main_returns_shut store_inv_def split_beta)
qed (simp add: confirms_main_def exit_shut)

lemma graceful_shut: "x \<in> set (graceful_main e handler rounds env) \<Longrightarrow> shut_down x"
proof (cases "set_up e (shutdown_program (me_url e) (me_logger e) handler)")
  case (Inr r)
  obtain s sent where r: "r = (s, sent)" by force
  have ok: "system_ok s" using program_inv [OF example_programs_ok(6)] Inr r by blast
  moreover have "system_ok (fst (Shutdown env s))" by (rule Shutdown_ok [OF ok])
  moreover assume "x \<in> set (graceful_main e handler rounds env)"
  ultimately show ?thesis
    using Inr by (auto simp: graceful_main_def r split_beta main_returns_shut exit_shut split: option.splits bool.splits)
qed (auto simp: graceful_main_def exit_shut)

lemma failed_resume_ok:
  assumes "system_ok s" "failed_resume push st s = Some (st', s', sent, r)"
  shows "system_ok s'"
proof -
  obtain job rest where st: "demo_stored st = job # rest"
    using assms(2) by (auto simp: failed_resume_def split: list.splits)
  have p: "republish push (demo_store st) s (sj_ID job) (bytes_of ''hello-from-retry'') = (demo_store st', s', sent, r)"
    using assms(2) by (auto simp: failed_resume_def st split: prod.splits)
  have pub: "system_ok u" if "Publish s name = (u, q)" for name u q
    using Publish_ok [OF assms(1), of name] that by simp
  show ?thesis
    using p assms(1) pub by (auto simp: republish_def Let_def split: prod.splits option.splits sum.splits)
qed

lemma failed_shut: "x \<in> set (failed_main e quote fail handler loopCtx ds c ds' c') \<Longrightarrow> shut_down x"
proof (cases "set_up e (failed_program (me_url e) (me_logger e) fail handler)")
  case (Inr r)
  obtain s sent where r: "r = (s, sent)" by force
  have ok: "system_ok s" using program_inv [OF example_programs_ok(5)] Inr r by blast
  assume x: "x \<in> set (failed_main e quote fail handler loopCtx ds c ds' c')"
  let ?handle = "\<lambda>s. deliver_all (failed_closures quote) (sys_store s) loopCtx (worker s ''example.failed-jobs'')"
  have "?handle s ds demo_begin \<noteq> None"
    using x by (cases "?handle s ds demo_begin") (simp_all add: failed_main_def Inr r Let_def)
  then obtain st effss where st: "?handle s ds demo_begin = Some (st, effss)" by auto
  then obtain how where "x \<in> set (case how of Interrupted \<Rightarrow> [main_returns e s Interrupted]
      | Finished \<Rightarrow> (case failed_resume (me_push e) st s of None \<Rightarrow> [] | Some (st, s, sent, Some err) \<Rightarrow> [Exit_1]
          | Some (st, s, sent, None) \<Rightarrow> (case ?handle s ds' st of None \<Rightarrow> []
              | Some (st, effss) \<Rightarrow> map (main_returns e s) (await (recovered_closed st) c'))))"
    using x Inr by (auto simp: failed_main_def r)
  then show ?thesis using ok
    by (cases how) (auto simp: main_returns_shut exit_shut failed_resume_ok [OF ok, of "me_push e" st, OF sym] split: option.splits)
qed (auto simp: failed_main_def exit_shut)

lemma basic_shut: "x \<in> set (basic_main e handler loopCtx ds c) \<Longrightarrow> shut_down x"
  by (auto simp: basic_main_def exit_shut intro!: main_returns_shut program_inv [OF example_programs_ok(1)] split: sum.splits option.splits)

lemma multiple_shut: "x \<in> set (multiple_main e emails sms es c) \<Longrightarrow> shut_down x"
  by (auto simp: multiple_main_def exit_shut intro!: main_returns_shut program_inv [OF example_programs_ok(4)] split: sum.splits option.splits)

lemma retry_shut: "x \<in> set (retry_main e fail handler loopCtx rounds) \<Longrightarrow> shut_down x"
  by (auto simp: retry_main_def exit_shut intro!: main_returns_shut program_inv [OF example_programs_ok(3)] split: sum.splits)

section \<open>To the end\<close>

text \<open>A \<open>Shutdown\<close> that nothing disturbs.\<close>

definition quiet_env :: shutdown_env where
  "quiet_env = \<lparr>se_ctxAt = (\<lambda>_. None), se_answers = (\<lambda>_. (None, None)), se_inflight = 0, se_ctxWait = None, se_ctxEnd = None\<rparr>"

lemma close_clean: "snd (snd (close (None, None) c)) = None"
  by (simp add: close_def Let_def close_chan_error_def close_conn_error_def)

lemma quiet_Shutdown: "snd (Shutdown quiet_env s) = [None]"
proof -
  have "snd (closeClients quiet_env (fst (snapshotClients s)) (snd (snapshotClients s)) s) = None"
    using close_fold_error [OF Shutdown_fold [of quiet_env s]] by (simp add: quiet_env_def close_err_def close_clean)
  then show ?thesis by (simp add: Shutdown_def split_beta quiet_env_def waitInflight_def Shutdown_result_def)
qed

definition ends_well :: "'c main_end list \<Rightarrow> bool" where
  "ends_well ends \<longleftrightarrow> (\<exists>s. ends = [Main_returned Finished s] \<and> all_shut s)"

lemma ends_wellI: "system_ok s \<Longrightarrow> ends_well [main_returns e s Finished]"
  by (simp add: ends_well_def main_returns_def deferred_shutdown_def Shutdown_shuts)

lemma set_up_ok:
  assumes "program_ok p" "me_ctxErr e = None" "me_push e = (\<lambda>_ _. None)"
  shows "\<exists>s sent. set_up e p = Inr (s, sent) \<and> store_inv s \<and> queue_param s = gm_get (QueueParams (prog_config p))"
  using run_program_ok [OF assms(1), of "me_answers e" "me_ctx e"] by (auto simp: set_up_def assms(2,3))

lemma await_simps: "await True False = [Finished]"
  by (simp add: await_def)

text \<open>The consumer each of them registers.\<close>

lemmas worker_defs = example_config_def gm_get_def plain_item_def retry_item_def resolve_options_def defaultOptions_def

lemma basic_worker:
  assumes "set_up e (basic_program u l h) = Inr (s, sent)" "store_inv s"
    and "queue_param s = gm_get (QueueParams (prog_config (basic_program u l h)))"
  shows "worker_ok (sys_store s) (worker s ''example.basic'') \<and> \<not> withRetry (worker s ''example.basic'')"
  using program_worker [OF assms(1) [unfolded set_up_def], of "''example.basic''" 1 h plain_item] assms(2,3)
  by (simp add: basic_program_def worker_defs withRetry_def)

lemma retry_worker:
  assumes "set_up e (retry_program u l f h) = Inr (s, sent)" "store_inv s"
    and "queue_param s = gm_get (QueueParams (prog_config (retry_program u l f h)))"
  shows "worker_ok (sys_store s) (worker s ''example.retry'') \<and> withRetry (worker s ''example.retry'')"
  using program_worker [OF assms(1) [unfolded set_up_def], of "''example.retry''" 1 h "retry_item (2 * second) (8 * second)"] assms(2,3)
  by (simp add: retry_program_def worker_defs withRetry_def)

lemma failed_worker:
  assumes "set_up e (failed_program u l f h) = Inr (s, sent)" "store_inv s"
    and "queue_param s = gm_get (QueueParams (prog_config (failed_program u l f h)))"
  shows "worker_ok (sys_store s) (worker s ''example.failed-jobs'') \<and> withRetry (worker s ''example.failed-jobs'') \<and>
    queueName (worker s ''example.failed-jobs'') = ''example.failed-jobs''"
  using program_worker [OF assms(1) [unfolded set_up_def], of "''example.failed-jobs''" 1 h "retry_item second (4 * second)"] assms(2,3)
  by (simp add: failed_program_def worker_defs withRetry_def)

lemma basic_ends_well:
  assumes "me_ctxErr e = None" "me_push e = (\<lambda>_ _. None)" "ds = [(env, d)]"
  shows "ends_well (basic_main e handler loopCtx ds False)"
proof -
  let ?p = "basic_program (me_url e) (me_logger e) handler"
  obtain s sent where s: "set_up e ?p = Inr (s, sent)" "store_inv s" "queue_param s = gm_get (QueueParams (prog_config ?p))"
    using set_up_ok [OF example_programs_ok(1) assms(1,2)] by blast
  have "on_message basic_closures (delivery_Body d) False = Some (True, Returned None)"
    by (simp add: basic_closures_def basic_handler_def)
  from deliver_verdict [OF conjunct1 [OF basic_worker [OF s]] this refl, of env loopCtx]
  obtain effs where "deliver basic_closures (sys_store s) loopCtx (worker s ''example.basic'') env d False = Some (True, effs)"
    by auto
  then show ?thesis using s(2) by (simp add: basic_main_def s(1) assms(3) await_simps ends_wellI store_inv_def)
qed

lemma multiple_ends_well:
  assumes "me_ctxErr e = None" "me_push e = (\<lambda>_ _. None)" "mark_run es mark_start = Some t" "jobs_of es = (8, 1)" "at_rest t"
  shows "ends_well (multiple_main e emails sms es False)"
proof -
  obtain s sent where s: "set_up e (multiple_program (me_url e) (me_logger e) emails sms) = Inr (s, sent)" "store_inv s"
    using set_up_ok [OF example_programs_ok(4) assms(1,2)] by blast
  then show ?thesis
    using nine_jobs_finish [OF assms(3-5)] by (simp add: multiple_main_def assms(3) await_simps ends_wellI store_inv_def)
qed

lemma retry_ends_well:
  assumes "me_ctxErr e = None" "me_push e = (\<lambda>_ _. None)" "in_time ds" "mset (bodies ds) = mset retry_bodies"
  shows "ends_well (retry_main e fail handler loopCtx [(ds, False), ([], False), ([], False)])"
proof -
  let ?p = "retry_program (me_url e) (me_logger e) fail handler"
  obtain s sent where s: "set_up e ?p = Inr (s, sent)" "store_inv s" "queue_param s = gm_get (QueueParams (prog_config ?p))"
    using set_up_ok [OF example_programs_ok(3) assms(1,2)] by blast
  let ?all = "deliver_all retry_closures (sys_store s) loopCtx (worker s ''example.retry'')"
  let ?st = "\<lparr>retryThenOKAttempts = 0, done_signals = 0\<rparr>"
  obtain effss where "?all ds ?st = Some (\<lparr>retryThenOKAttempts = 3, done_signals = 3\<rparr>, effss)"
    using retry_all [OF conjunct1 [OF retry_worker [OF s]] conjunct2 [OF retry_worker [OF s]] assms(3,4), of loopCtx] by blast
  then have "await_signals (\<lambda>ds st. map_option fst (?all ds st)) 3 [(ds, False), ([], False), ([], False)] ?st = [Finished]"
    by (simp add: numeral_3_eq_3 await_simps)
  then show ?thesis using s(2) by (simp add: retry_main_def s(1) ends_wellI store_inv_def)
qed

lemma confirms_ends_well:
  assumes "me_ctxErr e = None" "me_push e = (\<lambda>_ _. None)"
  shows "ends_well [confirms_main e order :: 'c main_end]"
proof -
  obtain s :: "'c system" and sent where s: "set_up e (confirms_program (me_url e) (me_logger e)) = Inr (s, sent)" "store_inv s"
    using set_up_ok [OF example_programs_ok(2) assms] by blast
  have "system_ok (fst (publish_each (me_push e) (map (\<lambda>i. par_messages ! i) order) s))"
    using publish_each_inv [OF s(2)] by (simp add: store_inv_def)
  then show ?thesis by (simp add: confirms_main_def s(1) split_beta ends_wellI)
qed

text \<open>Two handlers start while \<open>waitStarted\<close> ticks on.\<close>

abbreviation starts :: "handler_event list \<Rightarrow> nat" where
  "starts es \<equiv> count_list es HStart"

lemma count_starts: "sd_started st = int k \<Longrightarrow> k + starts es \<le> 2 \<Longrightarrow> sd_started (fold shutdown_handler es st) = int (k + starts es)"
proof (induction es arbitrary: k st)
  case (Cons x es)
  then show ?case
    using Cons.IH [of "shutdown_handler x st" "if x = HStart then Suc k else k"] by (cases x) (simp_all add: in_int64_def)
qed simp

lemma observe_two:
  "sd_started st = int k \<Longrightarrow> list_all (\<lambda>(es, b). b = Ticked) ticks \<Longrightarrow> k + starts (concat (map fst ticks) @ es) = 2 \<Longrightarrow>
     waitStarted 2 (observe st (ticks @ (es, b) # rounds)) = Some True"
proof (induction ticks arbitrary: st k)
  case Nil
  then show ?case using count_starts [of st k es] by simp
next
  case (Cons x ticks)
  obtain xs br where x: "x = (xs, br)" by force
  have n: "sd_started (fold shutdown_handler xs st) = int (k + starts xs)"
    using count_starts [of st k xs] Cons.prems(1,3) by (simp add: x)
  then show ?case using Cons.IH [OF n] Cons.prems(2,3) by (simp add: x Let_def)
qed

lemma graceful_ends_well:
  assumes "me_ctxErr e = None" "me_push e = (\<lambda>_ _. None)"
    and "list_all (\<lambda>(es, b). b = Ticked) ticks" "starts (concat (map fst ticks) @ es) = 2"
  shows "ends_well (graceful_main e handler (ticks @ (es, b) # rounds) quiet_env)"
proof -
  obtain s sent where s: "set_up e (shutdown_program (me_url e) (me_logger e) handler) = Inr (s, sent)" "store_inv s"
    using set_up_ok [OF example_programs_ok(6) assms(1,2)] by blast
  have w: "waitStarted 2 (observe no_handlers (ticks @ (es, b) # rounds)) = Some True"
    by (rule observe_two [where k = 0]) (use assms(3,4) in \<open>simp_all add: no_handlers_def\<close>)
  have "system_ok (fst (Shutdown quiet_env s))" using s(2) by (simp add: store_inv_def Shutdown_ok)
  then show ?thesis by (simp add: graceful_main_def s(1) w split_beta quiet_Shutdown ends_wellI)
qed

section \<open>failed-jobs: from the failure to the end\<close>

definition boom_outcome :: "go_error option outcome" where
  "boom_outcome = snd (demo_consumer (bytes_of ''fail:boom'') demo_begin)"

lemma boom_outcome_eq: "boom_outcome = Returned (Some (Opaque ''permanent demo failure''))"
  by (simp add: boom_outcome_def demo_consumer_def text_of_bytes Let_def)

text \<open>The fail handler stores the job and hands it to \<open>main\<close>, which republishes it.\<close>

lemma demo_stores:
  "\<exists>st item. demo_fail_handler quote job demo_begin = (st, Some None) \<and> demo_stored st = [item] \<and>
     ms_jobs (demo_store st) = [item] \<and> sj_Queue item = job_Queue job \<and>
     \<not> recoveredOnce st \<and> \<not> recovered_closed st"
  by (simp add: demo_fail_handler_def demo_begin_def add_job_def empty_jobs_def Let_def)

lemma resume_republishes:
  assumes "demo_stored st = [item]" "ms_jobs (demo_store st) = [item]" "Publish s (sj_Queue item) = (t, Inr a)"
  shows "\<exists>msg. failed_resume push st s =
      Some (st\<lparr>demo_store := (demo_store st)\<lparr>ms_jobs := []\<rparr>, demo_stored := []\<rparr>, t, [(a, msg)], push a msg) \<and>
    msg_Body msg = bytes_of ''hello-from-retry''"
  by (simp add: failed_resume_def republish_def take_job_def assms bytes_of_def Let_def)

lemma failed_param: "queue_param s = gm_get (QueueParams (prog_config (failed_program env l f h))) \<Longrightarrow>
    queue_param s ''example.failed-jobs'' = Some (retry_item second (4 * second))"
  by (simp add: failed_program_def example_config_def gm_get_def)

definition demo_job :: failed_job where
  "demo_job = \<lparr>job_Queue = ''example.failed-jobs'', job_Body = boom_body, job_Err = Some (Opaque ''permanent demo failure'')\<rparr>"

lemma worker_ok_kept:
  "keeps_staff s t \<Longrightarrow> consumers_of s name \<noteq> [] \<Longrightarrow> worker_ok (sys_store s) (worker s name) \<Longrightarrow> worker_ok (sys_store t) (worker t name)"
  by (simp add: keeps_staff_def worker_ok_def worker_def consumers_of_def same_identity_def withRetry_def)

text \<open>What happens in \<open>main\<close> between the delivery of the failing message and that of the republished one.\<close>

lemma failed_steps:
  fixes handler :: "'c consumer_handler" and fail :: fail_job_handler
  assumes "me_ctxErr e = None" "me_push e = (\<lambda>_ _. None)"
  defines "p \<equiv> failed_program (me_url e) (me_logger e) fail handler" and "q \<equiv> ''example.failed-jobs''"
  shows "\<exists>s0 sent st1 st2 s a msg. set_up e p = Inr (s0, sent) \<and> demo_fail_handler quote demo_job demo_begin = (st1, Some None) \<and>
    demo_stored st1 \<noteq> [] \<and> failed_resume (me_push e) st1 s0 = Some (st2, s, [(a, msg)], None) \<and>
    msg_Body msg = bytes_of ''hello-from-retry'' \<and> queueName (client_at s a) = q \<and> ms_jobs (demo_store st2) = [] \<and>
    \<not> recoveredOnce st2 \<and> \<not> recovered_closed st2 \<and> system_ok s \<and>
    worker_ok (sys_store s0) (worker s0 q) \<and> withRetry (worker s0 q) \<and> queueName (worker s0 q) = q \<and>
    worker_ok (sys_store s) (worker s q)"
proof -
  obtain st1 item where st1: "demo_fail_handler quote demo_job demo_begin = (st1, Some None)" "demo_stored st1 = [item]"
      "ms_jobs (demo_store st1) = [item]" "sj_Queue item = q" "\<not> recoveredOnce st1" "\<not> recovered_closed st1"
    using demo_stores [of quote demo_job] by (auto simp: demo_job_def q_def)
  obtain s0 sent where s0: "set_up e p = Inr (s0, sent)" "store_inv s0" "queue_param s0 = gm_get (QueueParams (prog_config p))"
    using set_up_ok [OF example_programs_ok(5) assms(1,2)] unfolding p_def by blast
  have ok: "system_ok s0" using s0(2) by (simp add: store_inv_def)
  note w = failed_worker [OF s0 [unfolded p_def], folded q_def]
  obtain s r where pub: "Publish s0 q = (s, r)" by force
  obtain a where a: "r = Inr a" "queueName (client_at s a) = q"
    using Publish_where [OF ok pub] by (auto simp: failed_param [OF s0(3) [unfolded p_def]] q_def retry_item_def)
  let ?st2 = "st1\<lparr>demo_store := (demo_store st1)\<lparr>ms_jobs := []\<rparr>, demo_stored := []\<rparr>"
  obtain msg where msg: "failed_resume (me_push e) st1 s0 = Some (?st2, s, [(a, msg)], None)" "msg_Body msg = bytes_of ''hello-from-retry''"
    using resume_republishes [OF st1(2,3), of s0 s a "me_push e"] pub a(1) st1(4) assms(2) by auto
  have "keeps_staff s0 s" using Publish_keeps_staff [of s0 q] by (simp add: pub)
  moreover have "consumers_of s0 q \<noteq> []"
    using run_program_staff [OF s0(1) [unfolded set_up_def]] copies_pos [of 1]
    by (force simp: p_def failed_program_def staffed_def q_def)
  ultimately have "worker_ok (sys_store s) (worker s q)" using w worker_ok_kept by blast
  moreover have "system_ok s" by (rule failed_resume_ok [OF ok msg(1)])
  ultimately show ?thesis
    using st1 s0(1) msg a(2) w
    by (intro exI [of _ s0] exI [of _ sent] exI [of _ st1] exI [of _ ?st2] exI [of _ s] exI [of _ a] exI [of _ msg]) simp
qed

lemma demo_recovers:
  "\<not> recoveredOnce st \<Longrightarrow> \<not> recovered_closed st \<Longrightarrow>
     demo_consumer (bytes_of ''hello-from-retry'') st = (st\<lparr>recoveredOnce := True, recovered_closed := True\<rparr>, Returned None)"
  by (simp add: demo_consumer_def text_of_bytes Let_def)

lemma failed_ends_well:
  fixes handler :: "'c consumer_handler"
  assumes "me_ctxErr e = None" "me_push e = (\<lambda>_ _. None)"
    and "ds = [(env, d)]" "delivery_Body d = boom_body" "ds' = [(env', d')]" "delivery_Body d' = bytes_of ''hello-from-retry''"
  shows "ends_well (failed_main e quote fail handler loopCtx ds False ds' False)"
proof -
  let ?q = "''example.failed-jobs''"
  obtain s0 sent st1 st2 s a msg where
      s: "set_up e (failed_program (me_url e) (me_logger e) fail handler) = Inr (s0, sent)"
      "demo_fail_handler quote demo_job demo_begin = (st1, Some None)" "demo_stored st1 \<noteq> []"
      "failed_resume (me_push e) st1 s0 = Some (st2, s, [(a, msg)], None)" "\<not> recoveredOnce st2" "\<not> recovered_closed st2" "system_ok s"
    and w: "worker_ok (sys_store s0) (worker s0 ?q)" "withRetry (worker s0 ?q)" "queueName (worker s0 ?q) = ?q"
      "worker_ok (sys_store s) (worker s ?q)"
    using failed_steps [OF assms(1,2), of fail handler quote] by blast
  have "on_message (failed_closures quote) (delivery_Body d) demo_begin =
      Some (demo_begin, Returned (Some (Opaque ''permanent demo failure'')))"
    by (simp add: failed_closures_def assms(4) demo_consumer_def demo_bodies)
  from deliver_verdict [OF w(1) this refl, of env loopCtx] w(2,3) s(2)
  obtain effs where 1: "deliver (failed_closures quote) (sys_store s0) loopCtx (worker s0 ?q) env d demo_begin = Some (st1, effs)"
    by (auto simp: assms(4) failed_closures_def demo_job_def)
  let ?st3 = "st2\<lparr>recoveredOnce := True, recovered_closed := True\<rparr>"
  have "on_message (failed_closures quote) (delivery_Body d') st2 = Some (?st3, Returned None)"
    using s(5,6) by (simp add: failed_closures_def assms(6) demo_recovers)
  from deliver_verdict [OF w(4) this refl, of env' loopCtx]
  obtain effs' where 2: "deliver (failed_closures quote) (sys_store s) loopCtx (worker s ?q) env' d' st2 = Some (?st3, effs')"
    by auto
  show ?thesis
    by (simp add: failed_main_def s(1,3,4) assms(3,5) 1 2 await_simps ends_wellI [OF s(7)])
qed

section \<open>Properties\<close>

definition main_sample :: main_env where
  "main_sample = \<lparr>me_url = [], me_logger = NilLogger, me_answers = (\<lambda>_. (None, None)), me_ctx = 0, me_ctxErr = None,
     me_push = (\<lambda>_ _. None), me_shutdown = quiet_env\<rparr>"

text \<open>
  C39. The failed-jobs program recovers its message. For a client of its queue in retry mode: the
  delivery of \<open>fail:boom\<close> is acked and calls the fail handler once, which stores the job and
  hands it to \<open>main\<close>; \<open>main\<close> republishes it, rewritten, to the publisher of its queue, after which
  no failed job is left; the delivery of the new message is acked, and its handler closes
  \<open>recovered\<close>. So when the two messages are delivered to the consumer that the program itself has
  registered, \<open>main\<close> returns, not interrupted, with everything closed.
\<close>

theorem failed_demo_recovers:
  assumes "me_ctxErr e = None" "me_push e = (\<lambda>_ _. None)"
    and "ConsumeHeadersExtractor clnt = Some extract" "fail_ready (failJobHandler queue) clnt" "withRetry clnt"
    and "queueName clnt = ''example.failed-jobs''"
    and "extract loopCtx (amqpTableToMap hs) = Returned c" "extract loopCtx (amqpTableToMap hs') = Returned c'"
  shows "\<exists>job st1 st2 st3 s a msg.
    settlements (fst (handleDelivery queue env loopCtx clnt (Some (\<lambda>_ _ _. boom_outcome))
      \<lparr>delivery_Headers = hs, delivery_Body = bytes_of ''fail:boom''\<rparr>)) = [Ack False] \<and>
    fail_jobs (fst (handleDelivery queue env loopCtx clnt (Some (\<lambda>_ _ _. boom_outcome))
      \<lparr>delivery_Headers = hs, delivery_Body = bytes_of ''fail:boom''\<rparr>)) = [job] \<and>
    demo_fail_handler quote job demo_begin = (st1, Some None) \<and>
    (\<exists>s0 sent. set_up e (failed_program (me_url e) (me_logger e) fail handler) = Inr (s0, sent) \<and>
       failed_resume (me_push e) st1 s0 = Some (st2, s, [(a, msg)], None)) \<and>
    queueName (client_at s a) = ''example.failed-jobs'' \<and> ms_jobs (demo_store st2) = [] \<and>
    demo_consumer (msg_Body msg) st2 = (st3, Returned None) \<and> recovered_closed st3 \<and>
    settlements (fst (handleDelivery queue env' loopCtx clnt (Some (\<lambda>_ _ _. Returned None))
      \<lparr>delivery_Headers = hs', delivery_Body = msg_Body msg\<rparr>)) = [Ack False] \<and>
    ends_well (failed_main e quote fail handler loopCtx
      [(env, \<lparr>delivery_Headers = hs, delivery_Body = bytes_of ''fail:boom''\<rparr>)] False
      [(env', \<lparr>delivery_Headers = hs', delivery_Body = msg_Body msg\<rparr>)] False)"
proof -
  note outcome = attempt_outcome [where d = "\<lparr>delivery_Headers = hh, delivery_Body = b\<rparr>" for hh b, simplified, OF assms(3) _ assms(4,5)]
  obtain s0 sent st1 st2 s a msg where s:
      "set_up e (failed_program (me_url e) (me_logger e) fail handler) = Inr (s0, sent)"
      "demo_fail_handler quote demo_job demo_begin = (st1, Some None)"
      "failed_resume (me_push e) st1 s0 = Some (st2, s, [(a, msg)], None)" "msg_Body msg = bytes_of ''hello-from-retry''"
      "queueName (client_at s a) = ''example.failed-jobs''" "ms_jobs (demo_store st2) = []" "\<not> recoveredOnce st2" "\<not> recovered_closed st2"
    using failed_steps [OF assms(1,2), of fail handler quote] by blast
  have "ends_well (failed_main e quote fail handler loopCtx
      [(env, \<lparr>delivery_Headers = hs, delivery_Body = bytes_of ''fail:boom''\<rparr>)] False
      [(env', \<lparr>delivery_Headers = hs', delivery_Body = msg_Body msg\<rparr>)] False)"
    by (rule failed_ends_well [OF assms(1,2) refl _ refl]) (simp_all add: s(4))
  then show ?thesis
    using s outcome [OF assms(7)] outcome [OF assms(8)] demo_recovers [OF s(7,8)]
    by (intro exI [of _ demo_job] exI [of _ st1] exI [of _ st2] exI [of _ "st2\<lparr>recoveredOnce := True, recovered_closed := True\<rparr>"]
        exI [of _ s] exI [of _ a] exI [of _ msg]) (simp add: handler_result_def boom_outcome_eq demo_job_def assms(6))
qed

definition failed_client :: "nat client" where
  "failed_client = failing_client\<lparr>queueName := ''example.failed-jobs''\<rparr>"

theorem failed_demo_recovers_witness:
  "\<exists>job st1 (msg :: publish_message). fail_jobs (fst (handleDelivery sample_store (env_at 0) 0 failed_client (Some (\<lambda>_ _ _. boom_outcome))
       \<lparr>delivery_Headers = gm_make, delivery_Body = bytes_of ''fail:boom''\<rparr>)) = [job] \<and>
     demo_fail_handler (\<lambda>t. t) job demo_begin = (st1, Some None) \<and>
     ends_well (failed_main main_sample (\<lambda>t. t) (\<lambda>_ _. Returned None) (\<lambda>_ _ _. Returned None) (0 :: nat)
       [(env_at 0, \<lparr>delivery_Headers = gm_make, delivery_Body = bytes_of ''fail:boom''\<rparr>)] False
       [(env_at 0, \<lparr>delivery_Headers = gm_make, delivery_Body = msg_Body msg\<rparr>)] False)"
proof -
  have c: "ConsumeHeadersExtractor failed_client = Some (\<lambda>parent _. Returned parent)"
      "fail_ready (failJobHandler sample_store) failed_client" "withRetry failed_client"
      "queueName failed_client = ''example.failed-jobs''"
    using failing_client_facts by (simp_all add: failed_client_def fail_ready_def withRetry_def)
  have e: "me_ctxErr main_sample = None" "me_push main_sample = (\<lambda>_ _. None)" by (simp_all add: main_sample_def)
  show ?thesis
    using failed_demo_recovers [OF e c refl refl, where env = "env_at 0" and env' = "env_at 0" and hs = gm_make and hs' = gm_make and
        quote = "\<lambda>t. t" and fail = "\<lambda>_ _. Returned None" and handler = "\<lambda>_ _ _. Returned None" and loopCtx = 0] by blast
qed


text \<open>Deliveries of the five bodies an hour before their deadline, and the nine jobs with the late marks.\<close>

definition retry_sample :: "(delivery_env \<times> amqp_delivery) list" where
  "retry_sample = map (\<lambda>body. (env_at 1, \<lparr>delivery_Headers = delivery_Headers minute_delivery, delivery_Body = body\<rparr>)) retry_bodies"

lemma retry_sample_ok: "in_time retry_sample" "bodies retry_sample = retry_bodies"
proof -
  have "four_digit_year (time_add (Time 0) (180 * second))"
    by (simp add: four_digit_year_def unix_secs_def time_add_def second_def)
  then have "\<not> isExpired (env_now (env_at 1)) (expired_stamp (Time 0) (180 * second))"
    unfolding expired_stamp_def
    by (rule rfc3339.not_early) (simp add: env_at_def time_add_def less_eq_gotime_def second_def)
  then have "\<not> deadline_passed (env_now (env_at 1)) (delivery_Headers minute_delivery)"
    using format_rfc3339_not_nil by (simp add: deadline_passed_def failing_client_facts(6) expired_stamp_def)
  then show "in_time retry_sample" by (simp add: in_time_def retry_sample_def list_all_iff)
  show "bodies retry_sample = retry_bodies" by (simp add: retry_sample_def comp_def)
qed

lemma racing_marks_rest: "\<exists>t. mark_run racing_marks mark_start = Some t \<and> at_rest t"
  by (simp add: racing_marks_def mark_start_def mark_def goes_to_def emailJobs_def in_int64_def numeral_eq_Suc at_rest_def)


end
