(* ===== verification/Graceful.thy ===== *)
theory Graceful
  imports Fleet ExampleMains
begin

text \<open>
  The program \<open>graceful-shutdown\<close> with everything that runs in it: the fleet of its two consumers
  (Fleet), the handler of each in its own steps, \<open>main\<close> waiting for two handlers to have started,
  and the \<open>Shutdown\<close> that \<open>main\<close> then calls. A handler runs inside \<open>handleDelivery\<close>: it starts after
  \<open>inflight\<close> was raised, counts itself in \<open>started\<close>, sleeps, counts itself in \<open>finished\<close> and returns
  before \<open>handleDelivery\<close> does.
\<close>

section \<open>The machine\<close>

datatype handler_pc =
    HIdle \<comment> \<open>not called for the delivery its loop has\<close>
  | HSleeping
  | HReturned

text \<open>\<open>gr_waited\<close>: \<open>waitStarted\<close> has returned true.\<close>

record 'c graceful =
  gr_fleet :: "'c fleet"
  gr_handler :: "addr \<Rightarrow> handler_pc"
  gr_count :: shutdown_demo
  gr_waited :: bool

definition graceful_start :: "(addr \<Rightarrow> 'c consumer_world) \<Rightarrow> 'c graceful" where
  "graceful_start cons =
     \<lparr>gr_fleet = fleet_start cons, gr_handler = (\<lambda>_. HIdle), gr_count = no_handlers, gr_waited = False\<rparr>"

datatype graceful_label = GFleet fleet_label | GStart addr | GFinish addr | GWaited

text \<open>\<open>handleDelivery\<close> returns only after the handler it calls.\<close>

definition handler_done :: "'c queueStore \<Rightarrow> 'c \<Rightarrow> 'c graceful \<Rightarrow> fleet_label \<Rightarrow> bool" where
  "handler_done queue loopCtx g l =
     (case l of
        FConsumer a (KL (KHandled env)) \<Rightarrow>
          (let s = fl_consumer (gr_fleet g) a in
           case cw_loop s of
             KHandling d n m dl \<Rightarrow>
               gr_handler g a =
                 (if calls_handler (fst (handleDelivery queue env loopCtx (cw_clnt s) (callback (cw_clnt s)) dl))
                  then HReturned else HIdle)
           | _ \<Rightarrow> True)
      | _ \<Rightarrow> True)"

definition next_handler :: "fleet_label \<Rightarrow> (addr \<Rightarrow> handler_pc) \<Rightarrow> addr \<Rightarrow> handler_pc" where
  "next_handler l h = (case l of FConsumer a (KL KAdd) \<Rightarrow> h(a := HIdle) | _ \<Rightarrow> h)"

inductive graceful_step ::
  "'c queueStore \<Rightarrow> 'c \<Rightarrow> consumer_entry list \<Rightarrow> 'c graceful \<Rightarrow> graceful_label \<Rightarrow> 'c graceful \<Rightarrow> bool"
  for queue loopCtx order where
  g_fleet:
  "fleet_step queue loopCtx order (gr_fleet g) l w \<Longrightarrow> l = FSnapshot \<longrightarrow> gr_waited g \<Longrightarrow> handler_done queue loopCtx g l \<Longrightarrow>
     graceful_step queue loopCtx order g (GFleet l) (g\<lparr>gr_fleet := w, gr_handler := next_handler l (gr_handler g)\<rparr>)"
| g_start:
  "handles (phase (cw_loop (fl_consumer (gr_fleet g) a))) \<Longrightarrow> gr_handler g a = HIdle \<Longrightarrow>
     graceful_step queue loopCtx order g (GStart a)
       (g\<lparr>gr_handler := (gr_handler g)(a := HSleeping), gr_count := shutdown_handler HStart (gr_count g)\<rparr>)"
| g_finish:
  "gr_handler g a = HSleeping \<Longrightarrow>
     graceful_step queue loopCtx order g (GFinish a)
       (g\<lparr>gr_handler := (gr_handler g)(a := HReturned), gr_count := shutdown_handler HFinish (gr_count g)\<rparr>)"
| g_waited:
  "waitStarted 2 [(sd_started (gr_count g), Ticked)] = Some True \<Longrightarrow>
     graceful_step queue loopCtx order g GWaited (g\<lparr>gr_waited := True\<rparr>)"

inductive_simps graceful_step_simps:
  "graceful_step queue loopCtx order g (GFleet l) h" "graceful_step queue loopCtx order g (GStart a) h"
  "graceful_step queue loopCtx order g (GFinish a) h" "graceful_step queue loopCtx order g GWaited h"

text \<open>
  The consumers of the program: the two that its setup registers, each as \<open>addConsumerClient\<close> makes
  it, with the handler, which returns nil.
\<close>

definition graceful_handler :: "'c consumer_handler" where
  "graceful_handler m ctx body = Returned None"

definition shutdown_order :: "'c system \<Rightarrow> consumer_entry list" where
  "shutdown_order s =
     map (\<lambda>(i, a). (''example.shutdown'', i, ''consumer'', a)) (enumerate 0 (consumers_of s ''example.shutdown''))"

definition shutdown_consumers :: "main_env \<Rightarrow> 'c system \<Rightarrow> (nat \<Rightarrow> 'c \<times> publish_message) \<Rightarrow> addr \<Rightarrow> 'c consumer_world" where
  "shutdown_consumers e s calls a =
     consumer_start s (me_ctx e) Examples.plain_item ''example.shutdown'' (Some graceful_handler) calls"

definition graceful_program :: "main_env \<Rightarrow> 'c program" where
  "graceful_program e = shutdown_program (me_url e) (me_logger e) graceful_handler"

section \<open>What every step keeps\<close>

definition sleeping :: "'c graceful \<Rightarrow> addr set" where
  "sleeping g = {a. gr_handler g a = HSleeping}"

definition graceful_inv :: "consumer_entry list \<Rightarrow> 'c graceful \<Rightarrow> bool" where
  "graceful_inv order g \<longleftrightarrow>
     fleet_inv order (gr_fleet g) \<and> sleeping g \<subseteq> handling_now (gr_fleet g) \<and>
     (fl_down (gr_fleet g) \<noteq> FIdle \<longrightarrow> gr_waited g)"

lemma next_handler_sleeping:
  "next_handler l h a = HSleeping \<Longrightarrow> h a = HSleeping \<and> l \<noteq> FConsumer a (KL KAdd)"
  by (auto simp: next_handler_def split: fleet_label.splits c_world_label.splits k_label.splits if_splits)

text \<open>A consumer leaves \<open>handleDelivery\<close> only by \<open>KHandled\<close>.\<close>

lemma handling_kept:
  assumes "consumer_step queue loopCtx s l t" "handles (phase (cw_loop s))"
  shows "handles (phase (cw_loop t)) \<or> (\<exists>env d n m dl. l = KL (KHandled env) \<and> cw_loop s = KHandling d n m dl)"
  using assms by (elim consumer_stepE) (auto elim!: loop_stepE split: option.splits if_splits)

lemma fleet_handling_kept:
  assumes "fleet_step queue loopCtx order w l v" "a \<in> handling_now w"
  shows "a \<in> handling_now v \<or> (\<exists>env d n m dl. l = FConsumer a (KL (KHandled env)) \<and> cw_loop (fl_consumer w a) = KHandling d n m dl)"
  using assms
proof (cases rule: fleet_step.cases)
  case (f_consumer b k u)
  then show ?thesis using handling_kept [OF f_consumer(4)] assms(2) by (cases "a = b") (auto simp: handling_now_def)
next
  case (f_entered name i role b rest fe u)
  then show ?thesis using handling_kept [OF f_entered(4)] assms(2) by (cases "a = b") (auto simp: handling_now_def)
qed (auto simp: handling_now_def)

lemma graceful_inv_step:
  assumes inv: "graceful_inv order g" and step: "graceful_step queue loopCtx order g l h"
  shows "graceful_inv order h"
  using step
proof (cases rule: graceful_step.cases)
  case (g_fleet k w)
  have "a \<in> handling_now w" if "next_handler k (gr_handler g) a = HSleeping" for a
  proof -
    have asleep: "gr_handler g a = HSleeping" using next_handler_sleeping [OF that] by simp
    then have "a \<in> handling_now (gr_fleet g)" using inv by (auto simp: graceful_inv_def sleeping_def)
    from fleet_handling_kept [OF g_fleet(3) this] show ?thesis
      using g_fleet(5) asleep by (auto simp: handler_done_def Let_def split: if_splits)
  qed
  moreover have "fl_down (gr_fleet g) = FIdle \<longrightarrow> fl_down w = FIdle \<or> k = FSnapshot"
    using g_fleet(3) by (cases rule: fleet_step.cases) auto
  ultimately show ?thesis
    using inv fleet_inv_step [OF _ g_fleet(3)] g_fleet(4) by (auto simp: g_fleet(2) graceful_inv_def sleeping_def)
qed (use inv in \<open>auto simp: graceful_inv_def sleeping_def handling_now_def split: if_splits\<close>)

lemma graceful_inv_start: "fresh_fleet cons \<Longrightarrow> graceful_inv order (graceful_start cons)"
  using fleet_inv_start by (simp add: graceful_inv_def graceful_start_def sleeping_def fleet_start_def)

interpretation graceful: invariant_system "graceful_start cons" "graceful_step queue loopCtx order"
    "\<lambda>g. fresh_fleet cons \<longrightarrow> graceful_inv order g"
  for cons queue loopCtx order
  by unfold_locales (auto intro: graceful_inv_start graceful_inv_step)

lemma sleeping_finite: "graceful_inv order g \<Longrightarrow> finite (sleeping g)"
  unfolding graceful_inv_def fleet_inv_def by (metis List.finite_set finite_imageI finite_subset)

section \<open>The counters\<close>

fun started_label :: "graceful_label \<Rightarrow> bool" where
  "started_label (GStart a) = True"
| "started_label _ = False"

fun finished_label :: "graceful_label \<Rightarrow> bool" where
  "finished_label (GFinish a) = True"
| "finished_label _ = False"

text \<open>The handlers that a run starts and ends.\<close>

abbreviation n_started :: "graceful_label list \<Rightarrow> nat" where
  "n_started ls \<equiv> length (filter started_label ls)"

abbreviation n_finished :: "graceful_label list \<Rightarrow> nat" where
  "n_finished ls \<equiv> length (filter finished_label ls)"

lemma sleeping_fleet:
  assumes "graceful_inv order g" "fleet_step queue loopCtx order (gr_fleet g) k w"
  shows "{a. next_handler k (gr_handler g) a = HSleeping} = sleeping g"
proof -
  have "\<not> handles (phase (cw_loop (fl_consumer (gr_fleet g) a)))" if "k = FConsumer a (KL KAdd)" for a
    using assms(2) by (auto simp: that fleet_step_simps consumer_step_simps loop_step_simps)
  then have "gr_handler g a \<noteq> HSleeping" if "k = FConsumer a (KL KAdd)" for a
    using assms(1) that by (auto simp: graceful_inv_def sleeping_def handling_now_def)
  then show ?thesis
    by (auto simp: sleeping_def next_handler_def split: fleet_label.splits c_world_label.splits k_label.splits if_splits)
qed

lemma counters_step:
  assumes "graceful_inv order g" "graceful_step queue loopCtx order g l h"
  shows "gr_count h = \<lparr>sd_started = (if started_label l then int64 (sd_started (gr_count g) + 1) else sd_started (gr_count g)),
      sd_finished = (if finished_label l then int64 (sd_finished (gr_count g) + 1) else sd_finished (gr_count g))\<rparr> \<and>
    card (sleeping h) + (if finished_label l then 1 else 0) = card (sleeping g) + (if started_label l then 1 else 0)"
  using assms(2)
proof (cases rule: graceful_step.cases)
  case (g_fleet k w)
  then show ?thesis using sleeping_fleet [OF assms(1) g_fleet(3)] by (simp add: sleeping_def)
next
  case (g_start a)
  have "sleeping h = insert a (sleeping g)" "a \<notin> sleeping g" using g_start by (auto simp: sleeping_def)
  then show ?thesis using g_start sleeping_finite [OF assms(1)] by simp
next
  case (g_finish a)
  have "sleeping h = sleeping g - {a}" "a \<in> sleeping g" using g_finish by (auto simp: sleeping_def)
  then show ?thesis using g_finish card_Suc_Diff1 [OF sleeping_finite [OF assms(1)]] by simp
qed (simp add: sleeping_def)

lemma counters_run:
  "graceful_inv order g \<Longrightarrow> run (graceful_step queue loopCtx order) g ls h \<Longrightarrow>
     gr_count g = \<lparr>sd_started = int64 x, sd_finished = int64 y\<rparr> \<Longrightarrow>
     gr_count h = \<lparr>sd_started = int64 (x + int (n_started ls)), sd_finished = int64 (y + int (n_finished ls))\<rparr> \<and>
     card (sleeping h) + n_finished ls = card (sleeping g) + n_started ls"
proof (induction ls arbitrary: g x y)
  case (Cons l ls)
  then obtain u where u: "graceful_step queue loopCtx order g l u" "run (graceful_step queue loopCtx order) u ls h" by auto
  let ?x = "if started_label l then x + 1 else x" and ?y = "if finished_label l then y + 1 else y"
  note one = counters_step [OF Cons.prems(1) u(1)]
  have "gr_count u = \<lparr>sd_started = int64 ?x, sd_finished = int64 ?y\<rparr>"
    using one by (simp add: Cons.prems(3) int64_Suc)
  from Cons.IH [OF graceful_inv_step [OF Cons.prems(1) u(1)] u(2) this] one
  show ?case by (auto simp: algebra_simps)
qed simp

text \<open>\<open>main\<close> has seen two handlers before it calls \<open>Shutdown\<close>.\<close>

lemma waited_run:
  "graceful_inv order g \<Longrightarrow> run (graceful_step queue loopCtx order) g ls h \<Longrightarrow> sd_started (gr_count g) = int64 (int k) \<Longrightarrow>
     gr_waited h \<Longrightarrow> gr_waited g \<or> 2 \<le> k + n_started ls"
proof (induction ls arbitrary: g k)
  case (Cons l ls)
  then obtain u where u: "graceful_step queue loopCtx order g l u" "run (graceful_step queue loopCtx order) u ls h" by auto
  let ?k = "if started_label l then Suc k else k"
  have "sd_started (gr_count u) = int64 (int ?k)"
    using counters_step [OF Cons.prems(1) u(1)] int64_Suc [of "int k"] by (simp add: Cons.prems(3) add.commute)
  note later = Cons.IH [OF graceful_inv_step [OF Cons.prems(1) u(1)] u(2) this Cons.prems(4)]
  have "2 \<le> k" if "gr_waited u" "\<not> gr_waited g"
  proof -
    have "2 \<le> int64 (int k)" using u(1) that Cons.prems(3) by (cases rule: graceful_step.cases) (auto split: if_splits)
    then show ?thesis by (cases "k < 2") (auto simp: less_2_cases_iff in_int64_def)
  qed
  then have "gr_waited u \<longrightarrow> gr_waited g \<or> 2 \<le> k" by blast
  then show ?case using later by (auto split: if_splits)
qed simp

section \<open>After \<open>Shutdown\<close>\<close>

text \<open>The conditions of \<open>fleet_shutdown_waits\<close> leave no handler.\<close>

definition ended_well :: "consumer_entry list \<Rightarrow> 'c graceful \<Rightarrow> bool" where
  "ended_well order g \<longleftrightarrow>
     fl_down (gr_fleet g) = FReturned None \<and> \<not> fl_uncounted (gr_fleet g) \<and> \<not> some_leaked order (gr_fleet g)"

lemma ended_quiet:
  assumes "graceful_inv order g" "ended_well order g"
  shows "handling_now (gr_fleet g) = {}" "sleeping g = {}"
proof -
  have inv: "fleet_inv order (gr_fleet g)" using assms(1) by (simp add: graceful_inv_def)
  then have idle: "all_idle order (gr_fleet g)" using assms(2) by (simp add: fleet_inv_def ended_well_def)
  have "\<not> handles p" if "busy_with p = None" for p using that by (cases p) simp_all
  then have "a \<notin> handling_now (gr_fleet g)" if "a \<in> order_addr ` set order" for a
    using idle that unfolding all_idle_def handling_now_def by blast
  then show "handling_now (gr_fleet g) = {}" using inv unfolding fleet_inv_def by blast
  then show "sleeping g = {}" using assms(1) by (simp add: graceful_inv_def)
qed

lemma some_leaked_step: "fleet_step queue loopCtx order w l v \<Longrightarrow> some_leaked order w \<Longrightarrow> some_leaked order v"
  unfolding some_leaked_def using fleet_projects_step leaked_stays by metis

lemma ended_before:
  assumes "graceful_step queue loopCtx order g l h" "fl_down (gr_fleet g) = FReturned None" "\<not> fl_uncounted (gr_fleet g)"
  shows "fl_down (gr_fleet h) = FReturned None \<and> \<not> fl_uncounted (gr_fleet h) \<and>
    (some_leaked order (gr_fleet g) \<longrightarrow> some_leaked order (gr_fleet h))"
  using assms(1)
proof (cases rule: graceful_step.cases)
  case (g_fleet k w)
  then show ?thesis using fleet_returned_step [OF g_fleet(3) assms(2)] some_leaked_step [OF g_fleet(3)] assms(3) by simp
qed (use assms(2,3) in simp_all)

lemma after_shutdown:
  "graceful_inv order g \<Longrightarrow> run (graceful_step queue loopCtx order) g ls h \<Longrightarrow>
     fl_down (gr_fleet g) = FReturned None \<Longrightarrow> \<not> fl_uncounted (gr_fleet g) \<Longrightarrow> \<not> some_leaked order (gr_fleet h) \<Longrightarrow>
     ended_well order g \<and> n_started ls = 0 \<and> gr_count h = gr_count g"
proof (induction ls arbitrary: g)
  case Nil
  then show ?case by (simp add: ended_well_def)
next
  case (Cons l ls)
  then obtain u where u: "graceful_step queue loopCtx order g l u" "run (graceful_step queue loopCtx order) u ls h" by auto
  note before = ended_before [OF u(1) Cons.prems(3,4)]
  have later: "ended_well order u \<and> n_started ls = 0 \<and> gr_count h = gr_count u"
    using Cons.IH [OF graceful_inv_step [OF Cons.prems(1) u(1)] u(2)] before Cons.prems(5) by blast
  then have well: "ended_well order g" using before Cons.prems(3,4) by (auto simp: ended_well_def)
  have "\<not> started_label l \<and> gr_count u = gr_count g"
    using u(1) ended_quiet [OF Cons.prems(1) well]
    by (cases rule: graceful_step.cases) (auto simp: handling_now_def sleeping_def)
  then show ?case using later well by simp
qed

section \<open>A run to the end\<close>

text \<open>Steps of the fleet that are neither the snapshot nor the end of a handler.\<close>

fun free_label :: "fleet_label \<Rightarrow> bool" where
  "free_label FSnapshot = False"
| "free_label (FConsumer a (KL (KHandled env))) = False"
| "free_label _ = True"

lemma free_lifts:
  "run (fleet_step queue loopCtx order) w ls v \<Longrightarrow> list_all free_label ls \<Longrightarrow> gr_fleet g = w \<Longrightarrow>
     run (graceful_step queue loopCtx order) g (map GFleet ls)
       (g\<lparr>gr_fleet := v, gr_handler := fold next_handler ls (gr_handler g)\<rparr>)"
proof (induction ls arbitrary: g w)
  case Nil
  then show ?case by simp
next
  case (Cons l ls)
  then obtain u where u: "fleet_step queue loopCtx order w l u" "run (fleet_step queue loopCtx order) u ls v" by auto
  let ?g = "g\<lparr>gr_fleet := u, gr_handler := next_handler l (gr_handler g)\<rparr>"
  have "l \<noteq> FSnapshot" "handler_done queue loopCtx g l"
    using Cons.prems(2) by (auto simp: handler_done_def Let_def split: fleet_label.splits c_world_label.splits k_label.splits kpc.splits)
  then have "graceful_step queue loopCtx order g (GFleet l) ?g"
    using g_fleet [of queue loopCtx order g l u] u(1) Cons.prems(3) by simp
  moreover have "run (graceful_step queue loopCtx order) ?g (map GFleet ls)
      (?g\<lparr>gr_fleet := v, gr_handler := fold next_handler ls (gr_handler ?g)\<rparr>)"
    by (rule Cons.IH [OF u(2)]) (use Cons.prems(2) in simp_all)
  ultimately show ?case by auto
qed

lemma closing_free: "list_all closing_label ls \<Longrightarrow> list_all free_label ls"
proof -
  have "closing_label l \<Longrightarrow> free_label l" for l by (cases l rule: closing_label.cases) simp_all
  then show "list_all closing_label ls \<Longrightarrow> list_all free_label ls" by (auto simp: list_all_iff)
qed

text \<open>The consumer of the program at its first delivery.\<close>

lemma shutdown_consumer_gets:
  "\<exists>v x n m. run (consumer_step queue loopCtx) (shutdown_consumers e s calls a) (receiving_run d @ [KL KAdd]) v \<and>
     cw_loop v = KHandling x n m d \<and> w_cpc (cw v) = CIdle \<and> \<not> cw_leaked v \<and>
     callback (cw_clnt v) = Some graceful_handler \<and> \<not> withRetry (cw_clnt v) \<and>
     ConsumeHeadersExtractor (cw_clnt v) = storeConsumeHeadersExtractor (sys_store s)"
  by (simp add: shutdown_consumers_def receiving_run_def ready_run_def run_simps withRetry_def Examples.plain_item_def)

lemma graceful_handled:
  assumes "ConsumeHeadersExtractor clnt = Some (\<lambda>parent _. Returned parent)" "callback clnt = Some graceful_handler"
    and "\<not> withRetry clnt" "failJobHandler queue = None"
  shows "snd (handleDelivery queue env loopCtx clnt (callback clnt) d) = None \<and>
    calls_handler (fst (handleDelivery queue env loopCtx clnt (callback clnt) d)) \<and>
    settlements (fst (handleDelivery queue env loopCtx clnt (callback clnt) d)) = [Ack False]"
proof -
  have "fail_ready (failJobHandler queue) clnt" using assms(3,4) by (simp add: fail_ready_def)
  note v = handleDelivery_visible [where env = env and cb = "callback clnt" and d = d and loopCtx = loopCtx, OF assms(1) refl this]
  let ?effs = "fst (handleDelivery queue env loopCtx clnt (callback clnt) d)"
  have "Handle loopCtx (delivery_Body d) \<in> set ?effs" using v by (metis filter_is_subset list.set_intros(1,2) subsetD)
  moreover have "settlements (filter visible ?effs) = [Ack False]"
    using v by (simp add: settlements_skip delivery_verdict_def handler_result_def assms(2) graceful_handler_def)
      (simp add: settlements_def)
  ultimately have "calls_handler ?effs" "settlements ?effs = [Ack False]"
    by (force simp: calls_handler_def list_ex_iff, simp add: settlements_visible)
  then show ?thesis using v by simp
qed

text \<open>A consumer receives a delivery and counts it; its handler then runs from start to end.\<close>

lemma handler_delivered:
  assumes a: "a \<in> order_addr ` set order" "fl_consumer (gr_fleet g) a = shutdown_consumers e s calls a"
  shows "\<exists>ls v x n m h. run (graceful_step queue loopCtx order) g ls h \<and>
    gr_fleet h = (set_consumer (gr_fleet g) a v)\<lparr>fl_inflight := fl_inflight (gr_fleet g) + 1\<rparr> \<and>
    gr_handler h a = HIdle \<and> gr_count h = gr_count g \<and> gr_waited h = gr_waited g \<and>
    cw_loop v = KHandling x n m d \<and> w_cpc (cw v) = CIdle \<and> \<not> cw_leaked v \<and>
    callback (cw_clnt v) = Some graceful_handler \<and> \<not> withRetry (cw_clnt v) \<and>
    ConsumeHeadersExtractor (cw_clnt v) = storeConsumeHeadersExtractor (sys_store s)"
proof -
  let ?w = "gr_fleet g" and ?ks = "receiving_run d @ [KL KAdd]"
  obtain v x n m where v: "run (consumer_step queue loopCtx) (fl_consumer ?w a) ?ks v" "cw_loop v = KHandling x n m d"
      "w_cpc (cw v) = CIdle" "\<not> cw_leaked v"
      "callback (cw_clnt v) = Some graceful_handler" "\<not> withRetry (cw_clnt v)"
      "ConsumeHeadersExtractor (cw_clnt v) = storeConsumeHeadersExtractor (sys_store s)"
    using shutdown_consumer_gets [of queue loopCtx e s calls a d] unfolding a(2) by blast
  have free: "KC CEnter \<notin> set ?ks" "list_all free_label (map (FConsumer a) ?ks)" "sum_list (map inflight_change ?ks) = 1"
    by (simp_all add: receiving_run_def ready_run_def)
  have w1: "run (fleet_step queue loopCtx order) ?w (map (FConsumer a) ?ks) ((set_consumer ?w a v)\<lparr>fl_inflight := fl_inflight ?w + 1\<rparr>)"
    using fleet_lifts [OF v(1) a(1) free(1)] unfolding free(3) by blast
  have "fold next_handler (map (FConsumer a) ?ks) (gr_handler g) a = HIdle" by (simp add: next_handler_def)
  then show ?thesis using free_lifts [OF w1 free(2) refl] v(2-) by fastforce
qed

lemma handler_returns:
  assumes a: "a \<in> order_addr ` set order" "cw_loop (fl_consumer (gr_fleet g) a) = KHandling x n m d" "gr_handler g a = HIdle"
    and clnt: "ConsumeHeadersExtractor (cw_clnt (fl_consumer (gr_fleet g) a)) = Some (\<lambda>parent _. Returned parent)"
      "callback (cw_clnt (fl_consumer (gr_fleet g) a)) = Some graceful_handler" "\<not> withRetry (cw_clnt (fl_consumer (gr_fleet g) a))"
      "failJobHandler queue = None"
  shows "\<exists>ls h. run (graceful_step queue loopCtx order) g ls h \<and>
    gr_fleet h = (set_consumer (gr_fleet g) a (at_k (fl_consumer (gr_fleet g) a) (KSelect x n m)))
      \<lparr>fl_inflight := fl_inflight (gr_fleet g) - 1\<rparr> \<and>
    gr_waited h = gr_waited g \<and> sd_started (gr_count h) = int64 (sd_started (gr_count g) + 1)"
proof -
  let ?v = "fl_consumer (gr_fleet g) a" and ?l = "FConsumer a (KL (KHandled sample_env))"
  let ?g1 = "g\<lparr>gr_handler := (gr_handler g)(a := HSleeping), gr_count := shutdown_handler HStart (gr_count g)\<rparr>"
  let ?g2 = "?g1\<lparr>gr_handler := (gr_handler ?g1)(a := HReturned), gr_count := shutdown_handler HFinish (gr_count ?g1)\<rparr>"
  let ?w = "(set_consumer (gr_fleet g) a (at_k ?v (KSelect x n m)))\<lparr>fl_inflight := fl_inflight (gr_fleet g) + -1\<rparr>"
  note h = graceful_handled [OF clnt, of sample_env loopCtx d]
  have r1: "run (graceful_step queue loopCtx order) g [GStart a, GFinish a] ?g2"
    using g_start [of g a queue loopCtx order] g_finish [of ?g1 a queue loopCtx order] a(2,3) by auto
  have "loop_step queue loopCtx ?v (KHandled sample_env) (at_k ?v (KSelect x n m))"
    using k_handled [OF a(2), of queue sample_env loopCtx] h by (metis option.simps(4) surjective_pairing)
  then have "fleet_step queue loopCtx order (gr_fleet ?g2) ?l ?w"
    using f_consumer [OF a(1), of queue loopCtx "gr_fleet g" "KL (KHandled sample_env)" "at_k ?v (KSelect x n m)"]
    by (simp add: consumer_step_simps)
  moreover have "handler_done queue loopCtx ?g2 ?l" using h a(2) by (simp add: handler_done_def)
  ultimately have r2: "graceful_step queue loopCtx order ?g2 (GFleet ?l) (?g2\<lparr>gr_fleet := ?w, gr_handler := next_handler ?l (gr_handler ?g2)\<rparr>)"
    by (intro g_fleet) simp_all
  let ?h = "?g2\<lparr>gr_fleet := ?w, gr_handler := next_handler ?l (gr_handler ?g2)\<rparr>"
  have "run (graceful_step queue loopCtx order) g ([GStart a, GFinish a] @ [GFleet ?l]) ?h"
    unfolding run_append using r1 r2 by auto
  moreover have "gr_fleet ?h = ?w" "gr_waited ?h = gr_waited g" "sd_started (gr_count ?h) = int64 (sd_started (gr_count g) + 1)"
    by simp_all
  ultimately show ?thesis unfolding diff_conv_add_uminus by blast
qed

lemma one_handler_runs:
  assumes "a \<in> order_addr ` set order" "fl_consumer (gr_fleet g) a = shutdown_consumers e s calls a"
    and "storeConsumeHeadersExtractor (sys_store s) = Some (\<lambda>parent _. Returned parent)" "failJobHandler (sys_store s) = None"
  shows "\<exists>ls h. run (graceful_step (sys_store s) loopCtx order) g ls h \<and>
    fl_down (gr_fleet h) = fl_down (gr_fleet g) \<and> fl_ctxErr (gr_fleet h) = fl_ctxErr (gr_fleet g) \<and>
    fl_inflight (gr_fleet h) = fl_inflight (gr_fleet g) \<and>
    (\<forall>b. b \<noteq> a \<longrightarrow> fl_consumer (gr_fleet h) b = fl_consumer (gr_fleet g) b) \<and>
    \<not> got_uncounted (fl_consumer (gr_fleet h) a) \<and> w_cpc (cw (fl_consumer (gr_fleet h) a)) = CIdle \<and>
    \<not> cw_leaked (fl_consumer (gr_fleet h) a) \<and>
    sd_started (gr_count h) = int64 (sd_started (gr_count g) + 1)"
proof -
  obtain ls1 v x n m g1 where g1: "run (graceful_step (sys_store s) loopCtx order) g ls1 g1"
      "gr_fleet g1 = (set_consumer (gr_fleet g) a v)\<lparr>fl_inflight := fl_inflight (gr_fleet g) + 1\<rparr>"
      "gr_handler g1 a = HIdle" "gr_count g1 = gr_count g"
      "cw_loop v = KHandling x n m stamped_delivery" "w_cpc (cw v) = CIdle" "\<not> cw_leaked v"
    and clnt: "ConsumeHeadersExtractor (cw_clnt v) = Some (\<lambda>parent _. Returned parent)"
      "callback (cw_clnt v) = Some graceful_handler" "\<not> withRetry (cw_clnt v)"
    using handler_delivered [OF assms(1,2), of "sys_store s" loopCtx stamped_delivery] unfolding assms(3) by blast
  have v: "fl_consumer (gr_fleet g1) a = v" by (simp add: g1(2))
  obtain ls2 h where h: "run (graceful_step (sys_store s) loopCtx order) g1 ls2 h"
      "gr_fleet h = (set_consumer (gr_fleet g1) a (at_k v (KSelect x n m)))\<lparr>fl_inflight := fl_inflight (gr_fleet g1) - 1\<rparr>"
      "sd_started (gr_count h) = int64 (sd_started (gr_count g1) + 1)"
    using handler_returns [OF assms(1), of g1 x n m stamped_delivery, unfolded v, OF g1(5,3) clnt assms(4), of loopCtx] by blast
  have "run (graceful_step (sys_store s) loopCtx order) g (ls1 @ ls2) h" unfolding run_append using g1(1) h(1) by blast
  then show ?thesis
    using g1(4,6,7) h(3) by (intro exI [of _ "ls1 @ ls2"] exI [of _ h]) (simp add: h(2) g1(2) got_uncounted_def)
qed

text \<open>From two handlers that have run to the end of \<open>Shutdown\<close>.\<close>

lemma graceful_shuts_down:
  assumes "fl_down (gr_fleet g) = FIdle" "fl_ctxErr (gr_fleet g) = None" "fl_inflight (gr_fleet g) = 0" "2 \<le> sd_started (gr_count g)"
    and idle: "\<forall>x \<in> set order. w_cpc (cw (fl_consumer (gr_fleet g) (order_addr x))) = CIdle \<and>
      \<not> got_uncounted (fl_consumer (gr_fleet g) (order_addr x)) \<and> \<not> cw_leaked (fl_consumer (gr_fleet g) (order_addr x))"
    and "distinct (map order_addr order)"
  shows "\<exists>ls h. run (graceful_step queue loopCtx order) g ls h \<and> fl_down (gr_fleet h) = FReturned None \<and>
    \<not> fl_uncounted (gr_fleet h) \<and> \<not> some_leaked order (gr_fleet h)"
proof -
  let ?w = "(gr_fleet g)\<lparr>fl_down := FTurn order None\<rparr>"
  let ?g1 = "g\<lparr>gr_waited := True, gr_fleet := ?w, gr_handler := next_handler FSnapshot (gr_handler g)\<rparr>"
  have r1: "run (graceful_step queue loopCtx order) g [GWaited, GFleet FSnapshot] ?g1"
    using assms(1,4) by (auto simp: graceful_step_simps fleet_step_simps handler_done_def)
  have "\<forall>x \<in> set order. w_cpc (cw (fl_consumer ?w (order_addr x))) = CIdle" using idle by simp
  then obtain ls v where v: "run (fleet_step queue loopCtx order) ?w ls v" "list_all closing_label ls" "fl_down v = FTurn [] None"
      "fl_ctxErr v = None" "fl_inflight v = fl_inflight ?w"
      "\<forall>b. cw_loop (fl_consumer v b) = cw_loop (fl_consumer ?w b) \<and> cw_leaked (fl_consumer v b) = cw_leaked (fl_consumer ?w b)"
    using turns_close_all [of ?w order order queue loopCtx] assms(2,6) by auto
  let ?fin = "v\<lparr>fl_down := FReturned None, fl_uncounted := list_ex (\<lambda>x. got_uncounted (fl_consumer v (order_addr x))) order\<rparr>"
  have "run (fleet_step queue loopCtx order) v [FAllClosed, FDrained, FWaited None, FReturn] ?fin"
    using v(3-5) assms(3) by (auto simp: fleet_step_simps waitInflight_def Shutdown_result_def intro: exI [of _ True])
  then have r2: "run (fleet_step queue loopCtx order) ?w (ls @ [FAllClosed, FDrained, FWaited None, FReturn]) ?fin"
    unfolding run_append using v(1) by blast
  have "list_all free_label (ls @ [FAllClosed, FDrained, FWaited None, FReturn])" using closing_free [OF v(2)] by simp
  note r3 = free_lifts [OF r2 this, of ?g1]
  have "\<not> fl_uncounted ?fin" "\<not> some_leaked order ?fin"
    using v(6) idle by (auto simp: list_ex_iff got_uncounted_def some_leaked_def)
  moreover obtain h where h: "gr_fleet h = ?fin"
      "run (graceful_step queue loopCtx order) ?g1 (map GFleet (ls @ [FAllClosed, FDrained, FWaited None, FReturn])) h"
    using r3 by (metis (no_types, lifting) graceful.select_convs(1) graceful.surjective graceful.update_convs(1,2))
  moreover have "run (graceful_step queue loopCtx order) g
      ([GWaited, GFleet FSnapshot] @ map GFleet (ls @ [FAllClosed, FDrained, FWaited None, FReturn])) h"
    unfolding run_append [of _ g] using r1 h(2) by blast
  moreover have "fl_down ?fin = FReturned None" by simp
  ultimately show ?thesis by metis
qed

section \<open>The program\<close>

lemma shutdown_set_up:
  assumes "set_up e (graceful_program e) = Inr (s, sent)"
  shows "length (consumers_of s ''example.shutdown'') = 2" "distinct (map order_addr (shutdown_order s))"
    "order_addr ` set (shutdown_order s) = set (consumers_of s ''example.shutdown'')"
    "storeConsumeHeadersExtractor (sys_store s) = Some (\<lambda>parent _. Returned parent)" "failJobHandler (sys_store s) = None"
proof -
  note staff = run_program_staff [OF assms [unfolded set_up_def]]
  show "length (consumers_of s ''example.shutdown'') = 2"
    using staff by (simp add: graceful_program_def shutdown_program_def staffed_def copies_def)
  show "storeConsumeHeadersExtractor (sys_store s) = Some (\<lambda>parent _. Returned parent)" "failJobHandler (sys_store s) = None"
    using staff by (simp_all add: graceful_program_def shutdown_program_def resolve_options_def defaultOptions_def)
  have m: "map order_addr (shutdown_order s) = consumers_of s ''example.shutdown''"
    by (simp add: shutdown_order_def comp_def split_beta)
  have "system_ok s"
    using program_inv [OF example_programs_ok(6) assms [unfolded graceful_program_def]] .
  then show "distinct (map order_addr (shutdown_order s))" unfolding m by (simp add: system_ok_def)
  show "order_addr ` set (shutdown_order s) = set (consumers_of s ''example.shutdown'')"
    using arg_cong [OF m, of set] by simp
qed

lemma two_consumers:
  assumes "set_up e (graceful_program e) = Inr (s, sent)"
  shows "\<exists>a b. a \<noteq> b \<and> order_addr ` set (shutdown_order s) = {a, b}"
proof -
  note s = shutdown_set_up [OF assms]
  have "length (consumers_of s ''example.shutdown'') = Suc (Suc 0)" using s(1) by simp
  then obtain a b where ab: "consumers_of s ''example.shutdown'' = [a, b]" unfolding length_Suc_conv by auto
  then have "a \<noteq> b" using s(2) by (simp add: shutdown_order_def)
  then show ?thesis using s(3) ab by auto
qed

lemma shutdown_fresh: "fresh_fleet (shutdown_consumers e s calls)"
  unfolding fresh_fleet_def shutdown_consumers_def by blast

text \<open>
  C36. The handlers \<open>graceful-shutdown\<close> starts also finish. The program has two consumers; its \<open>main\<close>
  calls \<open>Shutdown\<close> only after two handlers have counted themselves. If \<open>Shutdown\<close> returns nil, no
  loop had received a delivery it had not counted when \<open>inflight.Wait\<close> returned, and no dial
  succeeds after the \<open>close\<close> of its client, then in whatever way the consumers, the handlers and
  \<open>Shutdown\<close> have interleaved, at least two handlers have started, every one that has started has
  finished, the counters \<open>main\<close> logs are both that number, and from then on no handler starts.
\<close>

theorem graceful_shutdown_finishes:
  assumes "set_up e (graceful_program e) = Inr (s, sent)"
    and "run (graceful_step (sys_store s) loopCtx (shutdown_order s)) (graceful_start (shutdown_consumers e s calls)) ls g"
    and "fl_down (gr_fleet g) = FReturned None" "\<not> fl_uncounted (gr_fleet g)"
    and "run (graceful_step (sys_store s) loopCtx (shutdown_order s)) g ls' h" "\<not> some_leaked (shutdown_order s) (gr_fleet h)"
  shows "length (shutdown_order s) = 2 \<and> 2 \<le> n_started ls \<and> n_finished ls = n_started ls \<and>
    gr_count g = \<lparr>sd_started = int64 (int (n_started ls)), sd_finished = int64 (int (n_started ls))\<rparr> \<and>
    n_started ls' = 0 \<and> gr_count h = gr_count g"
proof -
  let ?g0 = "graceful_start (shutdown_consumers e s calls)"
  have inv0: "graceful_inv (shutdown_order s) ?g0" by (rule graceful_inv_start [OF shutdown_fresh])
  have inv: "graceful_inv (shutdown_order s) g"
    using graceful.inv_reach [OF run_reach [OF assms(2)]] shutdown_fresh by blast
  note after = after_shutdown [OF inv assms(5,3,4,6)]
  have start: "gr_count ?g0 = \<lparr>sd_started = int64 0, sd_finished = int64 0\<rparr>" "sleeping ?g0 = {}" "\<not> gr_waited ?g0"
    by (simp_all add: graceful_start_def no_handlers_def sleeping_def in_int64_def)
  note counters = counters_run [OF inv0 assms(2) start(1)]
  have eq: "n_finished ls = n_started ls"
    using counters ended_quiet(2) [OF inv] after by (simp add: start(2))
  have "gr_waited g" using inv assms(3) by (simp add: graceful_inv_def)
  then have "2 \<le> n_started ls"
    using waited_run [OF inv0 assms(2), of 0] start(1,3) by simp
  moreover have "length (shutdown_order s) = 2" using shutdown_set_up(1) [OF assms(1)] by (simp add: shutdown_order_def)
  ultimately show ?thesis using eq counters after by simp
qed

text \<open>Two handlers run, one on each consumer, and then \<open>Shutdown\<close>.\<close>

lemma graceful_run:
  assumes "set_up e (graceful_program e) = Inr (s, sent)"
  shows "\<exists>ls g. run (graceful_step (sys_store s) loopCtx (shutdown_order s)) (graceful_start (shutdown_consumers e s calls)) ls g \<and>
    fl_down (gr_fleet g) = FReturned None \<and> \<not> fl_uncounted (gr_fleet g) \<and> \<not> some_leaked (shutdown_order s) (gr_fleet g)"
proof -
  let ?step = "graceful_step (sys_store s) loopCtx (shutdown_order s)"
  let ?cons = "shutdown_consumers e s calls"
  note s = shutdown_set_up [OF assms]
  obtain a b where ab: "a \<noteq> b" and addrs: "order_addr ` set (shutdown_order s) = {a, b}"
    using two_consumers [OF assms] by blast
  let ?g0 = "graceful_start ?cons"
  have g0: "fl_consumer (gr_fleet ?g0) = ?cons" "fl_down (gr_fleet ?g0) = FIdle" "fl_ctxErr (gr_fleet ?g0) = None"
    "fl_inflight (gr_fleet ?g0) = 0" "sd_started (gr_count ?g0) = 0"
    by (simp_all add: graceful_start_def fleet_start_def no_handlers_def)
  have "fl_consumer (gr_fleet ?g0) a = shutdown_consumers e s calls a" "a \<in> order_addr ` set (shutdown_order s)"
    by (simp_all add: g0(1) addrs)
  from one_handler_runs [OF this(2,1) s(4,5), of loopCtx] obtain ls1 g1 where g1: "run ?step ?g0 ls1 g1"
      "fl_down (gr_fleet g1) = FIdle" "fl_ctxErr (gr_fleet g1) = None" "fl_inflight (gr_fleet g1) = 0"
      "\<forall>c. c \<noteq> a \<longrightarrow> fl_consumer (gr_fleet g1) c = ?cons c" "sd_started (gr_count g1) = int64 1"
    and a: "\<not> got_uncounted (fl_consumer (gr_fleet g1) a)" "w_cpc (cw (fl_consumer (gr_fleet g1) a)) = CIdle"
      "\<not> cw_leaked (fl_consumer (gr_fleet g1) a)"
    unfolding g0 by auto
  have "fl_consumer (gr_fleet g1) b = shutdown_consumers e s calls b" "b \<in> order_addr ` set (shutdown_order s)"
    using g1(5) ab by (simp_all add: addrs)
  from one_handler_runs [OF this(2,1) s(4,5), of loopCtx] obtain ls2 g2 where g2: "run ?step g1 ls2 g2"
      "fl_down (gr_fleet g2) = FIdle" "fl_ctxErr (gr_fleet g2) = None" "fl_inflight (gr_fleet g2) = 0"
      "\<forall>c. c \<noteq> b \<longrightarrow> fl_consumer (gr_fleet g2) c = fl_consumer (gr_fleet g1) c" "sd_started (gr_count g2) = int64 (int64 1 + 1)"
    and b: "\<not> got_uncounted (fl_consumer (gr_fleet g2) b)" "w_cpc (cw (fl_consumer (gr_fleet g2) b)) = CIdle"
      "\<not> cw_leaked (fl_consumer (gr_fleet g2) b)"
    unfolding g1(2-4,6) by auto
  have "order_addr x = a \<or> order_addr x = b" if "x \<in> set (shutdown_order s)" for x using addrs that by blast
  then have idle: "\<forall>x \<in> set (shutdown_order s). w_cpc (cw (fl_consumer (gr_fleet g2) (order_addr x))) = CIdle \<and>
      \<not> got_uncounted (fl_consumer (gr_fleet g2) (order_addr x)) \<and> \<not> cw_leaked (fl_consumer (gr_fleet g2) (order_addr x))"
    using a b g2(5) ab by metis
  have "2 \<le> sd_started (gr_count g2)" by (simp add: g2(6) in_int64_def)
  from graceful_shuts_down [OF g2(2-4) this idle s(2)] obtain ls3 g where g: "run ?step g2 ls3 g"
      "fl_down (gr_fleet g) = FReturned None" "\<not> fl_uncounted (gr_fleet g)" "\<not> some_leaked (shutdown_order s) (gr_fleet g)"
    by blast
  have "run ?step ?g0 (ls1 @ ls2 @ ls3) g" unfolding run_append using g1(1) g2(1) g(1) by blast
  then show ?thesis using g by blast
qed

theorem graceful_shutdown_finishes_witness:
  "\<exists>(s :: nat system) sent ls g. set_up main_sample (graceful_program main_sample) = Inr (s, sent) \<and>
     run (graceful_step (sys_store s) 0 (shutdown_order s)) (graceful_start (shutdown_consumers main_sample s (\<lambda>_. (0, demo_message)))) ls g \<and>
     fl_down (gr_fleet g) = FReturned None \<and> 2 \<le> n_started ls \<and> n_finished ls = n_started ls"
proof -
  obtain s :: "nat system" and sent where s: "set_up main_sample (graceful_program main_sample) = Inr (s, sent)"
    using set_up_ok [OF example_programs_ok(6), of main_sample "me_url main_sample" "me_logger main_sample" graceful_handler]
    unfolding graceful_program_def by (auto simp: main_sample_def)
  obtain ls g where g: "run (graceful_step (sys_store s) 0 (shutdown_order s))
      (graceful_start (shutdown_consumers main_sample s (\<lambda>_. (0, demo_message)))) ls g"
      "fl_down (gr_fleet g) = FReturned None" "\<not> fl_uncounted (gr_fleet g)" "\<not> some_leaked (shutdown_order s) (gr_fleet g)"
    using graceful_run [OF s, of 0 "\<lambda>_. (0, demo_message)"] by blast
  have "run (graceful_step (sys_store s) 0 (shutdown_order s)) g [] g" by simp
  from graceful_shutdown_finishes [OF s g(1-3) this g(4)] show ?thesis using s g(1,2) by blast
qed

end
