(* ===== verification/Spec2Isabelle.thy ===== *)
theory Spec2Isabelle
  imports Registry Otel Graceful
begin

text \<open>
  A verification development for go-amqp-adapter, a Go library that publishes to and consumes
  from RabbitMQ queues, with reconnection, publisher confirms and delayed retries.

  \<^bold>\<open>The program.\<close> \<open>New\<close> (src/queue.go) validates a configuration and makes a store with one
  publisher client per queue that is not consume-only. \<open>AddConsumer\<close> and \<open>AddConsumerN\<close> add
  consumer clients, \<open>InitConsumer\<close> starts one consumer loop for each, \<open>Publish\<close> hands a message to
  the publisher of its queue and \<open>Shutdown\<close> closes every client and waits for running handlers. A
  client (src/client.go) has a reconnect loop that dials, opens a channel and declares the queue,
  the publishing operation \<open>push\<close> that waits for the broker's confirm under a mutex and tries again
  until it succeeds, and \<open>close\<close>. A consumer loop (src/consumer_loop.go) waits for its client,
  subscribes and hands each delivery to src/delivery.go, which runs the handler and settles the
  message. In retry mode a message is stamped with a deadline when it is published; a retryable
  failure before it rejects the message into a delay queue that dead-letters it back, and anything
  else goes to the fail handler.

  \<^bold>\<open>The theories\<close>, each with what it models and what its lemmas show.

  \<^item> Prelude: int64 arithmetic, Go maps (nil or a list of entries, whose order is that of one
    \<open>range\<close>), \<open>select\<close> as the list of results it may produce, reachability of a step relation, and
    the locale \<open>invariant_system\<close> that every step relation interprets for each of its invariants.
  \<^item> Errors: src/errors.go and src/retryable.go. The chain that \<open>errors.Is\<close> and \<open>errors.As\<close> walk,
    the messages, \<open>Retry\<close> and \<open>IsRetryable\<close>; the mark survives wrapping.
  \<^item> GoTime, TimeText: what is used of package time: instants, the calendar, \<open>Format\<close> and \<open>Parse\<close> of
    the two layouts, with the round trip of the text forms.
  \<^item> Deadline: the stamp of \<open>unsafePush\<close>, \<open>parseExpiredTime\<close> and \<open>isExpired\<close> of src/client.go; the
    locale \<open>deadline_codec\<close>, interpreted for both layouts, says the check is never late and early by
    less than a second.
  \<^item> Config: src/config.go, src/interfaces.go, src/options.go: data, options, validation, which
    accepts exactly the valid configurations whatever the order of the map.
  \<^item> State: the structures \<open>client\<close> and \<open>queueStore\<close>, the header tables and their copies (locale
    \<open>table_copy\<close>), and the effects an operation leaves in its trace.
  \<^item> Delivery: all of src/delivery.go, and the contract \<open>verdict\<close> it refines.
  \<^item> ConsumerLoop: all of src/consumer_loop.go and \<open>consume\<close>.
  \<^item> Topology: \<open>initQueue\<close>, \<open>initQueueWithRetry\<close> and the choice in \<open>init\<close> (src/client.go).
  \<^item> Publish: \<open>unsafePush\<close> and the waits of \<open>push\<close>, \<open>mapToAMQPTable\<close>, \<open>logReturnedMessages\<close>.
  \<^item> Machine: one client as a step relation of its reconnect loop (\<open>handleReconnect\<close>, \<open>connect\<close>,
    \<open>handleReInit\<close>, \<open>init\<close>), any number of callers of \<open>push\<close>, \<open>close\<close> and the broker. MachineInv and
    ConfirmInv hold its invariants, one lemma per kind of step: mutual exclusion, what readiness
    promises, what a result can be, priorities, where the loop can rest, whose confirm is read.
    MachineRuns states the properties and the runs that show what goes wrong.
  \<^item> Queue, Store, StoreProps: src/queue.go with \<open>close\<close> and \<open>ensureConnected\<close>, over a heap of
    clients; the invariant \<open>system_ok\<close> of the registries and what each operation does. The locale
    \<open>closable\<close> is the contract of \<open>close\<close> that \<open>Shutdown\<close> relies on.
  \<^item> Registry: \<open>AddConsumerN\<close> and \<open>InitConsumer\<close> called from several goroutines.
  \<^item> Refinement: the locale \<open>forward_simulation\<close>, a step relation that implements an abstract one.
  \<^item> ConsumerMachine, ConsumerRuns: one consumer client with its reconnect loop, \<open>close\<close> and consumer
    loop interleaved, the loop reading \<open>isReady\<close>, \<open>ch\<close> and \<open>done\<close> while they change. The invariant
    \<open>conns_ok\<close> says which connections and channels can be open; \<open>contract_step\<close> is what a consumer
    promises, which this machine refines unless a dial succeeds after \<open>close\<close>; after \<open>close\<close> the loop
    ends. Two runs show what the unsynchronized accesses lead to.
  \<^item> Fleet: \<open>Shutdown\<close> against the machines of all consumers at that granularity: what \<open>inflight\<close>
    counts, when \<open>Wait\<close> can return, what an error-free \<open>Shutdown\<close> promises, and the run in which a
    handler starts after it. That a closed consumer receives nothing is proved there, not assumed.
  \<^item> Lifecycle: one message across publishing, topology and delivery.
  \<^item> Otel: src/otel/propagation.go.
  \<^item> FailedJobs, Examples: the programs under src/examples, as clients of the model above; the locale
    \<open>job_store\<close> is the contract of the store of failed jobs that \<open>republish\<close> relies on.
  \<^item> ExampleHandlers: the handlers of these programs as closures over the variables they share, run
    by \<open>handleDelivery\<close> on the deliveries of a consumer (\<open>deliver\<close>), and what a series of
    deliveries leaves in those variables; the consumers that a setup registers (\<open>staffed\<close>).
  \<^item> ExampleMains: the \<open>main\<close> of each program from its setup to its end; what it waits for is what
    its handlers have left after the deliveries that came first.
  \<^item> Graceful: \<open>graceful-shutdown\<close> as one step relation: the Fleet of its two consumers, the two steps
    of each handler, \<open>waitStarted\<close> and \<open>Shutdown\<close>.

  \<^bold>\<open>How the code is rendered.\<close> A nil pointer, interface or function is \<open>None\<close>, an error result an
  \<open>option\<close> or a sum, a panic a value of \<open>panic\<close>. A call of a user's function returns or panics
  (\<open>outcome\<close>); a handler takes the moment of the call, so it may do something else every time.
  Durations are \<open>int\<close> with the int64 wrap-around written out where the code computes one; the
  deadline arithmetic of package time is exact here, and the properties about it ask for a deadline
  in the years 0 to 9999, which the text forms can represent. A priority is an 8-bit word. Contexts
  are a type variable, or a number with \<open>ctx.Err()\<close> as a parameter.

  \<^bold>\<open>Loops.\<close> The consumer loop and the example's wait run on a script of what each \<open>select\<close> and each
  read observes; they are total on every script and say so when the script ends first (\<open>Waiting\<close>,
  \<open>None\<close>). The theorems quantify over all scripts, so no bound is chosen. The loops of a client are
  step relations without a bound, and a property of them is one of all reachable states. That
  retrying ends is proved as such: at most the budget divided by the TTL, plus two, attempts.

  \<^bold>\<open>The machine and the memory model.\<close> A step is what one goroutine does between two points where
  another can interfere; steps of different goroutines interleave freely. Go gives no meaning to a
  data race, and the fields \<open>conn\<close>, \<open>ch\<close> and the notification channels are read and written without
  synchronization: the machine takes each such access to be atomic, which is the best case.

  \<^bold>\<open>Parameters.\<close> The AMQP library and the broker are not part of the repository. What calls of the
  library return is an argument or a choice of the step relation. Of its behaviour the machine uses
  that confirms come in the order of the publishes on a channel and that a closed channel closes
  its notification channels; ConsumerMachine that a channel closes with its connection, rejects
  \<open>Consume\<close> then and drops the deliveries it has buffered; Lifecycle that the broker keeps the
  \<open>expired\<close> header and does not bring a dead-lettered message back before the TTL of the delay
  queue. The OpenTelemetry API is a record of functions with \<open>carrier_laws\<close>. The text that
  \<open>strconv.Quote\<close> makes is a parameter.

  \<^bold>\<open>What is not modelled, and why.\<close> src/doc.go has no code. Log calls of the deliveries, the
  consumer loop and the store are in their traces; those of the client's goroutines are left out, as
  they change nothing. Of the examples: logging, sleeps, the HTTP server and the text of its JSON.
  The tests are not part of the program.

  \<^bold>\<open>What the theorems show\<close>, besides correctness: the runs in the last section of MachineRuns
  are faults of the code, as are the last two theorems of ConsumerRuns, the theorems of Lifecycle on
  panics, of Registry on registrations lost during a start, of Fleet on handlers that start after
  \<open>Shutdown\<close>, and those of FailedJobs and Examples on lost jobs, full channels and channels closed
  twice. Each says so in its text.

  \<^bold>\<open>How the parts meet.\<close> The contract of ConsumerRuns says that a closed consumer receives nothing.
  The machine of one consumer keeps it as long as no dial succeeds after \<open>close\<close> has returned; when
  one does, \<open>closed_client_goes_on_consuming\<close> shows what happens. Fleet puts all consumers and
  \<open>Shutdown\<close> together, each of its steps being a step of one of those machines or of \<open>Shutdown\<close>,
  and rests on their invariants. Graceful runs the handlers of a program inside the Fleet. The
  sequential operations of Store are the ones the programs of Examples call, and \<open>handleDelivery\<close>
  is the function of Delivery in every machine and every program.

  \<^bold>\<open>To come.\<close> The publishers in Fleet, with their callers of \<open>push\<close>, and registrations during it.
\<close>

end
